theory Spec2Isabelle
  imports Complex_Main "HOL-Library.Word" "HOL-Library.AList" "HOL-Library.Multiset"
begin

section \<open>Rate limiter (server/src/rateLimit.ts)\<close>

text \<open>
  JavaScript numbers that hold token counts and rates are modelled as exact reals;
  timestamps (\<^verbatim>\<open>Date.now()\<close>, whole milliseconds) as integers. Every read of the clock
  is an explicit argument of the function that performs it. A store is the
  \<^verbatim>\<open>Map<string, TokenBucket>\<close>; the bucket object that the source mutates in place is written
  back under its key.
\<close>

record RateLimitConfig =
  maxTokens :: real
  refillRate :: real
  refillInterval :: real

record TokenBucket =
  tokens :: real
  lastRefill :: int

type_synonym bucket_store = "string \<rightharpoonup> TokenBucket"

text \<open>
  \<^verbatim>\<open>retryAfterMs\<close> is \<^verbatim>\<open>Math.ceil((tokensNeeded / refillRate) * 1000)\<close>. Division by a zero
  rate gives \<^verbatim>\<open>Infinity\<close> in JavaScript (the dividend is positive on that path), which the
  model keeps apart from the finite results.
\<close>

datatype retry_ms = Finite int | Infinity

record RateLimitResult =
  allowed :: bool
  retryAfterMs :: "retry_ms option"

definition RATE_LIMITS_challenge :: RateLimitConfig where
  "RATE_LIMITS_challenge = \<lparr>maxTokens = 10, refillRate = 10 / 60, refillInterval = 1000\<rparr>"

definition RATE_LIMITS_submit :: RateLimitConfig where
  "RATE_LIMITS_submit = \<lparr>maxTokens = 30, refillRate = 30 / 60, refillInterval = 1000\<rparr>"

definition getBucket ::
  "bucket_store \<Rightarrow> string \<Rightarrow> RateLimitConfig \<Rightarrow> int \<Rightarrow> bucket_store \<times> TokenBucket" where
  "getBucket store ip config now =
     (case store ip of
        Some bucket \<Rightarrow> (store, bucket)
      | None \<Rightarrow>
          (let bucket = \<lparr>tokens = maxTokens config, lastRefill = now\<rparr>
           in (store(ip \<mapsto> bucket), bucket)))"

definition refillBucket :: "TokenBucket \<Rightarrow> RateLimitConfig \<Rightarrow> int \<Rightarrow> TokenBucket" where
  "refillBucket bucket config now =
     (let elapsed = now - lastRefill bucket;
          tokensToAdd = (real_of_int elapsed / 1000) * refillRate config
      in bucket\<lparr>tokens := min (maxTokens config) (tokens bucket + tokensToAdd),
                lastRefill := now\<rparr>)"

definition checkRateLimit ::
  "bucket_store \<Rightarrow> string \<Rightarrow> RateLimitConfig \<Rightarrow> int \<Rightarrow> int
     \<Rightarrow> bucket_store \<times> RateLimitResult" where
  "checkRateLimit store ip config tGet tRefill =
     (let (store1, bucket0) = getBucket store ip config tGet;
          bucket = refillBucket bucket0 config tRefill
      in if tokens bucket \<ge> 1
         then (store1(ip \<mapsto> bucket\<lparr>tokens := tokens bucket - 1\<rparr>),
               \<lparr>allowed = True, retryAfterMs = None\<rparr>)
         else (let tokensNeeded = 1 - tokens bucket;
                   retry = (if refillRate config = 0 then Infinity
                            else Finite \<lceil>(tokensNeeded / refillRate config) * 1000\<rceil>)
               in (store1(ip \<mapsto> bucket),
                   \<lparr>allowed = False, retryAfterMs = Some retry\<rparr>)))"

text \<open>
  A run of calls for one identity: each call is given its two clock reads (the one in
  \<^verbatim>\<open>getBucket\<close>, used only when the bucket is created, and the one in \<^verbatim>\<open>refillBucket\<close>).
\<close>

fun checkRateLimit_run ::
  "bucket_store \<Rightarrow> string \<Rightarrow> RateLimitConfig \<Rightarrow> (int \<times> int) list
     \<Rightarrow> bucket_store \<times> RateLimitResult list" where
  "checkRateLimit_run store ip config [] = (store, [])"
| "checkRateLimit_run store ip config ((tGet, tRefill) # ts) =
     (let (store1, r) = checkRateLimit store ip config tGet tRefill;
          (store2, rs) = checkRateLimit_run store1 ip config ts
      in (store2, r # rs))"

definition clock_reads :: "(int \<times> int) list \<Rightarrow> int list" where
  "clock_reads ts = concat (map (\<lambda>(a, b). [a, b]) ts)"

definition bucket_in_bounds :: "RateLimitConfig \<Rightarrow> TokenBucket \<Rightarrow> bool" where
  "bucket_in_bounds config b \<longleftrightarrow> 0 \<le> tokens b \<and> tokens b \<le> maxTokens config"

section \<open>JavaScript strings\<close>

text \<open>
  A string is a list of 8-bit characters, read as the code units \<open>0..255\<close> (Latin-1); code
  units above that range are outside the model. \<^verbatim>\<open>trim\<close>, the \<^verbatim>\<open>\s\<close> class and \<^verbatim>\<open>parseInt\<close>
  share JavaScript's white space: TAB, LF, VT, FF, CR, SPACE and NBSP in this range.
  The \<^verbatim>\<open>\w\<close> class is \<^verbatim>\<open>[A-Za-z0-9_]\<close>.
\<close>

definition isWhiteSpace :: "char \<Rightarrow> bool" where
  "isWhiteSpace c \<longleftrightarrow> (of_char c :: nat) \<in> {9, 10, 11, 12, 13, 32, 160}"

definition trim :: "string \<Rightarrow> string" where
  "trim s = rev (dropWhile isWhiteSpace (rev (dropWhile isWhiteSpace s)))"

definition lowerChar :: "char \<Rightarrow> char" where
  "lowerChar c =
     (let n = of_char c :: nat
      in if (65 \<le> n \<and> n \<le> 90) \<or> (192 \<le> n \<and> n \<le> 222 \<and> n \<noteq> 215)
         then char_of (n + 32) else c)"

definition toLowerCase :: "string \<Rightarrow> string" where
  "toLowerCase s = map lowerChar s"

definition isWordChar :: "char \<Rightarrow> bool" where
  "isWordChar c =
     (let n = of_char c :: nat
      in (48 \<le> n \<and> n \<le> 57) \<or> (65 \<le> n \<and> n \<le> 90) \<or> n = 95 \<or> (97 \<le> n \<and> n \<le> 122))"

definition isDigit :: "char \<Rightarrow> bool" where
  "isDigit c \<longleftrightarrow> 48 \<le> (of_char c :: nat) \<and> (of_char c :: nat) \<le> 57"

text \<open>\<^verbatim>\<open>s.split(/\s+/)\<close>: the pieces between maximal runs of white space, empty pieces kept.\<close>

function split_ws :: "string \<Rightarrow> string \<Rightarrow> string list" where
  "split_ws cur [] = [cur]"
| "split_ws cur (c # cs) =
     (if isWhiteSpace c then cur # split_ws [] (dropWhile isWhiteSpace cs)
      else split_ws (cur @ [c]) cs)"
  by pat_completeness auto
termination
  by (relation "measure (\<lambda>(cur, s). length s)")
     (auto simp: length_dropWhile_le less_Suc_eq_le)

fun join :: "string list \<Rightarrow> string \<Rightarrow> string" where
  "join [] sep = []"
| "join [x] sep = x"
| "join (x # y # ys) sep = x @ sep @ join (y # ys) sep"

text \<open>Decimal rendering of an integer inside a template literal.\<close>

fun digits_of :: "nat \<Rightarrow> string" where
  "digits_of n =
     (if n < 10 then [''0123456789'' ! n]
      else digits_of (n div 10) @ [''0123456789'' ! (n mod 10)])"

definition show_int :: "int \<Rightarrow> string" where
  "show_int i = (if i < 0 then ''-'' @ digits_of (nat (- i)) else digits_of (nat i))"

text \<open>
  \<^verbatim>\<open>parseInt(s, 10)\<close>: leading white space, an optional sign, then the longest run of
  decimal digits; \<open>None\<close> is \<^verbatim>\<open>NaN\<close>.
\<close>

definition parseInt10 :: "string \<Rightarrow> int option" where
  "parseInt10 s =
     (let s1 = dropWhile isWhiteSpace s;
          neg = (case s1 of c # _ \<Rightarrow> c = CHR ''-'' | [] \<Rightarrow> False);
          s2 = (case s1 of c # cs \<Rightarrow> if c = CHR ''-'' \<or> c = CHR ''+'' then cs else s1 | [] \<Rightarrow> []);
          ds = takeWhile isDigit s2;
          n = foldl (\<lambda>a c. 10 * a + (int (of_char c) - 48)) 0 ds
      in if ds = [] then None else Some (if neg then - n else n))"

text \<open>
  \<^verbatim>\<open>new RegExp(`\\b${w}\\b`).test(s)\<close> for a pattern text \<open>w\<close> without regular-expression
  metacharacters, so that \<open>w\<close> stands for itself: some position of \<open>s\<close> carries a word
  boundary, then \<open>w\<close>, then a word boundary. A word boundary separates a \<^verbatim>\<open>\w\<close> character
  from a character outside \<^verbatim>\<open>\w\<close> or from an end of the string. Every word of the pools below
  is such a pattern; a word with a metacharacter is outside the model.
\<close>

definition regexLiteral :: "string \<Rightarrow> bool" where
  "regexLiteral w \<longleftrightarrow>
     (\<forall>c \<in> set w. (of_char c :: nat) \<notin> {92, 94, 36, 46, 42, 43, 63, 40, 41, 91, 93, 123, 125, 124})"

definition isWordCharOpt :: "char option \<Rightarrow> bool" where
  "isWordCharOpt x = (case x of None \<Rightarrow> False | Some c \<Rightarrow> isWordChar c)"

definition wordBoundary :: "char option \<Rightarrow> char option \<Rightarrow> bool" where
  "wordBoundary before after \<longleftrightarrow> isWordCharOpt before \<noteq> isWordCharOpt after"

definition firstChar :: "string \<Rightarrow> char option" where
  "firstChar s = (case s of [] \<Rightarrow> None | c # _ \<Rightarrow> Some c)"

definition matchesHere :: "char option \<Rightarrow> string \<Rightarrow> string \<Rightarrow> bool" where
  "matchesHere before w s \<longleftrightarrow>
     wordBoundary before (firstChar s) \<and> take (length w) s = w \<and>
     wordBoundary (if w = [] then before else Some (last w)) (firstChar (drop (length w) s))"

fun testFrom :: "char option \<Rightarrow> string \<Rightarrow> string \<Rightarrow> bool" where
  "testFrom before w [] = matchesHere before w []"
| "testFrom before w (c # cs) = (matchesHere before w (c # cs) \<or> testFrom (Some c) w cs)"

definition wordRegexTest :: "string \<Rightarrow> string \<Rightarrow> bool" where
  "wordRegexTest w s = testFrom None w s"

section \<open>Challenge generator and verification (server/src/challenges/coherent.ts)\<close>

definition NOUNS :: "string list" where
  "NOUNS = [''apple'', ''telescope'', ''mountain'', ''river'', ''butterfly'', ''castle'', ''dragon'',
     ''library'', ''volcano'', ''umbrella'', ''penguin'', ''lighthouse'', ''whisper'', ''thunder'',
     ''garden'', ''crystal'', ''shadow'', ''melody'', ''puzzle'', ''compass'', ''lantern'',
     ''feather'', ''anchor'', ''rainbow'', ''bridge'', ''mirror'', ''candle'', ''forest'',
     ''island'', ''treasure'', ''clock'', ''storm'', ''diamond'', ''sunset'', ''keyboard'']"

definition ADJECTIVES :: "string list" where
  "ADJECTIVES = [''purple'', ''ancient'', ''silent'', ''golden'', ''frozen'', ''hidden'', ''curious'',
     ''gentle'', ''fierce'', ''mysterious'', ''brilliant'', ''hollow'', ''distant'', ''sacred'',
     ''fragile'', ''endless'', ''vivid'', ''tranquil'', ''bold'', ''subtle'']"

definition VERBS :: "string list" where
  "VERBS = [''whisper'', ''dance'', ''climb'', ''discover'', ''remember'', ''chase'', ''embrace'',
     ''wander'', ''create'', ''believe'', ''vanish'', ''emerge'', ''transform'', ''protect'']"

definition TIME_WORDS :: "string list" where
  "TIME_WORDS = [''yesterday'', ''tomorrow'', ''wednesday'', ''midnight'', ''sunrise'', ''autumn'',
     ''forever'', ''suddenly'', ''eventually'', ''meanwhile'']"

definition MAX_SENTENCE_LENGTH :: nat where
  "MAX_SENTENCE_LENGTH = 10000"

record CoherentChallenge =
  words :: "string list"
  wordCount :: int
  timeoutMs :: int

record CoherentVerifyResult =
  valid :: bool
  errors :: "string list"
  coherenceScore :: "int option"

text \<open>
  \<^verbatim>\<open>pickRandom\<close>: \<open>randomBytes i\<close> is the \<open>i\<close>-th value that \<^verbatim>\<open>crypto.getRandomValues\<close> wrote
  into the \<^verbatim>\<open>Uint32Array\<close>. The comparator \<^verbatim>\<open>a.sort - b.sort\<close> orders by that value, and the
  sort is stable.
\<close>

definition pickRandom :: "'a list \<Rightarrow> (nat \<Rightarrow> 32 word) \<Rightarrow> nat \<Rightarrow> 'a list" where
  "pickRandom arr randomBytes n =
     (let shuffled = map fst (sort_key (\<lambda>(item, sort). unat sort)
                                (map (\<lambda>i. (arr ! i, randomBytes i)) [0..<length arr]))
      in take n shuffled)"

text \<open>
  The random draws of one call of \<^verbatim>\<open>generateCoherentChallenge\<close>. The last step sorts the five
  words with the comparator \<^verbatim>\<open>() => Math.random() - 0.5\<close>, which is not a consistent order:
  the arrangement that the engine's sort returns is the parameter \<open>shuffleOrder\<close>.
\<close>

record challenge_entropy =
  nounBytes :: "nat \<Rightarrow> 32 word"
  adjectiveBytes :: "nat \<Rightarrow> 32 word"
  verbBytes :: "nat \<Rightarrow> 32 word"
  timeBytes :: "nat \<Rightarrow> 32 word"
  shuffleOrder :: "string list \<Rightarrow> string list"
  randomByte :: "8 word"

definition generateCoherentChallenge :: "challenge_entropy \<Rightarrow> CoherentChallenge" where
  "generateCoherentChallenge e =
     \<lparr>words = shuffleOrder e
                (pickRandom NOUNS (nounBytes e) 2 @ pickRandom ADJECTIVES (adjectiveBytes e) 1 @
                 pickRandom VERBS (verbBytes e) 1 @ pickRandom TIME_WORDS (timeBytes e) 1),
      wordCount = 15 + int (unat (randomByte e) mod 11),
      timeoutMs = 10000\<rparr>"

text \<open>\<^verbatim>\<open>containsAllWords\<close> returns the pair \<^verbatim>\<open>{valid, missing}\<close>.\<close>

definition containsAllWords :: "string \<Rightarrow> string list \<Rightarrow> bool \<times> string list" where
  "containsAllWords sentence ws =
     (let lowerSentence = toLowerCase sentence;
          missing = filter (\<lambda>word. \<not> wordRegexTest (toLowerCase word) lowerSentence) ws
      in (length missing = 0, missing))"

definition countWords :: "string \<Rightarrow> nat" where
  "countWords sentence = length (filter (\<lambda>w. length w > 0) (split_ws [] (trim sentence)))"

text \<open>\<^verbatim>\<open>basicGrammarCheck\<close> returns the pair \<^verbatim>\<open>{valid, error?}\<close>.\<close>

definition basicGrammarCheck :: "string \<Rightarrow> bool \<times> string option" where
  "basicGrammarCheck sentence =
     (let trimmed = trim sentence
      in if length trimmed = 0 then (False, Some ''Empty sentence'')
         else if \<not> (65 \<le> (of_char (hd trimmed) :: nat) \<and> (of_char (hd trimmed) :: nat) \<le> 90)
         then (False, Some ''Sentence should start with a capital letter'')
         else if last trimmed \<notin> set ''.!?''
         then (False, Some ''Sentence should end with punctuation (.!?)'')
         else (True, None))"

text \<open>
  The coherence oracle. \<open>apiKey\<close> is \<^verbatim>\<open>process.env.OPENAI_API_KEY\<close> (unset, or a string that
  is falsy when empty); \<open>fetch\<close> gives, for the sentence sent, what the HTTP exchange does:
  it throws, or it answers with an \<^verbatim>\<open>ok\<close> flag and a body; reading the body throws (not
  JSON, or a value whose \<^verbatim>\<open>choices[0].message.content\<close> cannot be trimmed), or yields the
  content string, \<open>None\<close> when some link of the optional chain is absent.
\<close>

datatype reply_body = BodyThrows | BodyContent "string option"

datatype fetch_outcome = FetchThrows | Response bool reply_body

record oracle_env =
  apiKey :: "string option"
  fetch :: "string \<Rightarrow> fetch_outcome"

record CoherenceResult =
  score :: int
  coh_error :: "string option"

definition checkCoherence :: "oracle_env \<Rightarrow> string \<Rightarrow> CoherenceResult" where
  "checkCoherence env sentence =
     (if apiKey env = None \<or> apiKey env = Some []
      then \<lparr>score = 7, coh_error = None\<rparr>
      else (case fetch env sentence of
              FetchThrows \<Rightarrow> \<lparr>score = 7, coh_error = Some ''Check failed, defaulting to pass''\<rparr>
            | Response ok body \<Rightarrow>
                if \<not> ok then \<lparr>score = 7, coh_error = Some ''API error, defaulting to pass''\<rparr>
                else (case body of
                        BodyThrows \<Rightarrow>
                          \<lparr>score = 7, coh_error = Some ''Check failed, defaulting to pass''\<rparr>
                      | BodyContent c \<Rightarrow>
                          (let content = (case c of None \<Rightarrow> [] | Some s \<Rightarrow> trim s)
                           in case parseInt10 content of
                                None \<Rightarrow> \<lparr>score = 7, coh_error = None\<rparr>
                              | Some n \<Rightarrow>
                                  if n < 1 \<or> n > 10 then \<lparr>score = 7, coh_error = None\<rparr>
                                  else \<lparr>score = n, coh_error = None\<rparr>))))"

text \<open>
  The \<^verbatim>\<open>sentence\<close> field as it arrives from a JSON body. \<^verbatim>\<open>answer.sentence?.trim() || ''\<close>
  gives the empty string for \<^verbatim>\<open>undefined\<close> and \<^verbatim>\<open>null\<close>, the trimmed text for a string, and
  throws a \<^verbatim>\<open>TypeError\<close> for any other value (a number, a boolean, an array, an object).
\<close>

datatype js_value = Undefined | Null | Str string | Other

datatype js_error = TypeError

text \<open>
  \<^verbatim>\<open>verifyCoherent\<close> returns its result together with the sentences it passed to
  \<^verbatim>\<open>checkCoherence\<close>, in order: the record of its calls to the oracle. The line it
  writes to the console for a failed verification is not part of the model.
\<close>

definition verifyCoherent ::
  "oracle_env \<Rightarrow> 'a CoherentChallenge_scheme \<Rightarrow> js_value
     \<Rightarrow> js_error + (CoherentVerifyResult \<times> string list)" where
  "verifyCoherent env challenge answer =
     (if answer = Other then Inl TypeError
      else
       (let sentence = (case answer of Str s \<Rightarrow> trim s | _ \<Rightarrow> [])
        in if length sentence > MAX_SENTENCE_LENGTH
           then Inr (\<lparr>valid = False,
                      errors = [''Sentence too long: '' @ show_int (int (length sentence)) @
                                '' chars (max '' @ show_int (int MAX_SENTENCE_LENGTH) @ '')''],
                      coherenceScore = None\<rparr>, [])
           else
            (let wordCheck = containsAllWords sentence (words challenge);
                 errors1 = (if \<not> fst wordCheck
                            then [''Missing words: '' @ join (snd wordCheck) '', ''] else []);
                 actualCount = countWords sentence;
                 errors2 = (if int actualCount \<noteq> wordCount challenge
                            then errors1 @ [''Word count: expected '' @ show_int (wordCount challenge) @
                                            '', got '' @ show_int (int actualCount)]
                            else errors1);
                 grammarCheck = basicGrammarCheck sentence;
                 errors3 = (if \<not> fst grammarCheck
                            then errors2 @ [case snd grammarCheck of Some e \<Rightarrow> e | None \<Rightarrow> ''undefined'']
                            else errors2)
             in if length errors3 = 0
                then (let coherence = checkCoherence env sentence;
                          errors4 = (if score coherence < 7
                                     then errors3 @ [''Sentence not coherent enough (score: '' @
                                                     show_int (score coherence) @ ''/10, need 7+)'']
                                     else errors3)
                      in Inr (\<lparr>valid = (length errors4 = 0), errors = errors4,
                                coherenceScore = Some (score coherence)\<rparr>, [sentence]))
                else Inr (\<lparr>valid = (length errors3 = 0), errors = errors3,
                          coherenceScore = None\<rparr>, []))))"

section \<open>Sessions (server/src/sessions.ts)\<close>

text \<open>
  The session's challenge is \<^verbatim>\<open>CoherentChallenge & { id: string }\<close>. Field names that occur in
  several interfaces of the source carry a prefix here (\<open>ch_id\<close>, \<open>ses_id\<close>, \<open>ses_clientIp\<close>).
  The session \<^verbatim>\<open>Map\<close> keeps insertion order, which the eviction's stable sort can observe:
  it is an association list, \<^verbatim>\<open>set\<close> being \<^const>\<open>AList.update\<close> (replace in place, or append)
  and \<^verbatim>\<open>delete\<close> being \<^const>\<open>AList.delete\<close>.
\<close>

datatype session_status = active | passed | failed

record SessionChallenge = CoherentChallenge +
  ch_id :: string

record AuthSession =
  ses_id :: string
  ses_clientIp :: string
  currentBlock :: int
  maxBlocks :: int
  challenge :: SessionChallenge
  blockStartedAt :: int
  blockTimeoutMs :: int
  sessionCreatedAt :: int
  status :: session_status
  passedAt :: "int option"
  failedAt :: "int option"

type_synonym session_store = "(string \<times> AuthSession) list"

definition SESSION_MAX_AGE_MS :: int where
  "SESSION_MAX_AGE_MS = 5 * 60 * 1000"

definition MAX_SESSIONS :: nat where
  "MAX_SESSIONS = 10000"

definition secureRandomString :: "nat \<Rightarrow> (nat \<Rightarrow> 8 word) \<Rightarrow> string" where
  "secureRandomString len randomBytes =
     (let chars = ''ABCDEFGHIJKLMNOPQRSTUVWXYZabcdefghijklmnopqrstuvwxyz0123456789''
      in map (\<lambda>i. chars ! (unat (randomBytes i) mod length chars)) [0..<len])"

definition generateSessionId :: "(nat \<Rightarrow> 8 word) \<Rightarrow> string" where
  "generateSessionId randomBytes = ''ses_'' @ secureRandomString 24 randomBytes"

definition generateChallengeId :: "(nat \<Rightarrow> 8 word) \<Rightarrow> string" where
  "generateChallengeId randomBytes = ''ch_'' @ secureRandomString 16 randomBytes"

text \<open>The random draws behind a new block, and behind a new session.\<close>

record block_entropy =
  challengeEntropy :: challenge_entropy
  challengeIdBytes :: "nat \<Rightarrow> 8 word"

record session_entropy = block_entropy +
  sessionIdBytes :: "nat \<Rightarrow> 8 word"

definition withId :: "CoherentChallenge \<Rightarrow> string \<Rightarrow> SessionChallenge" where
  "withId c i = \<lparr>words = words c, wordCount = wordCount c, timeoutMs = timeoutMs c, ch_id = i\<rparr>"

definition cleanupOldSessions :: "int \<Rightarrow> session_store \<Rightarrow> session_store" where
  "cleanupOldSessions now sessions =
     (let sessions1 = fold (\<lambda>(i, session) acc.
                              if now - sessionCreatedAt session > SESSION_MAX_AGE_MS
                              then AList.delete i acc else acc) sessions sessions
      in if length sessions1 > MAX_SESSIONS
         then (let sortedSessions = sort_key (\<lambda>(i, session). sessionCreatedAt session) sessions1;
                   toRemove = length sessions1 - MAX_SESSIONS
               in fold (\<lambda>i acc. AList.delete (fst (sortedSessions ! i)) acc) [0..<toRemove] sessions1)
         else sessions1)"

definition createSession ::
  "string \<Rightarrow> int \<Rightarrow> 'a session_entropy_scheme \<Rightarrow> int \<Rightarrow> int \<Rightarrow> session_store
     \<Rightarrow> AuthSession \<times> session_store" where
  "createSession clientIp timeout e now tCleanup sessions =
     (let sessionId = generateSessionId (sessionIdBytes e);
          c = generateCoherentChallenge (challengeEntropy e);
          session = \<lparr>ses_id = sessionId, ses_clientIp = clientIp, currentBlock = 1, maxBlocks = 3,
                     challenge = withId c (generateChallengeId (challengeIdBytes e)),
                     blockStartedAt = now, blockTimeoutMs = timeout, sessionCreatedAt = now,
                     status = active, passedAt = None, failedAt = None\<rparr>
      in (session, cleanupOldSessions tCleanup (AList.update sessionId session sessions)))"

definition getSession :: "session_store \<Rightarrow> string \<Rightarrow> AuthSession option" where
  "getSession sessions sessionId = map_of sessions sessionId"

definition isBlockExpired :: "AuthSession \<Rightarrow> int \<Rightarrow> bool" where
  "isBlockExpired session now \<longleftrightarrow> now - blockStartedAt session > blockTimeoutMs session"

definition getBlockTimeRemaining :: "AuthSession \<Rightarrow> int \<Rightarrow> int" where
  "getBlockTimeRemaining session now =
     max 0 (blockTimeoutMs session - (now - blockStartedAt session))"

definition advanceToNextBlock ::
  "AuthSession \<Rightarrow> 'a block_entropy_scheme \<Rightarrow> int \<Rightarrow> bool \<times> AuthSession" where
  "advanceToNextBlock session e now =
     (if currentBlock session \<ge> maxBlocks session
      then (False, session\<lparr>status := failed, failedAt := Some now\<rparr>)
      else (let newChallenge = generateCoherentChallenge (challengeEntropy e)
            in (True, session\<lparr>currentBlock := currentBlock session + 1,
                              challenge := withId newChallenge (generateChallengeId (challengeIdBytes e)),
                              blockStartedAt := now\<rparr>)))"

definition markSessionPassed :: "AuthSession \<Rightarrow> int \<Rightarrow> AuthSession" where
  "markSessionPassed session now = session\<lparr>status := passed, passedAt := Some now\<rparr>"

definition markSessionFailed :: "AuthSession \<Rightarrow> int \<Rightarrow> AuthSession" where
  "markSessionFailed session now = session\<lparr>status := failed, failedAt := Some now\<rparr>"

definition deleteSession :: "session_store \<Rightarrow> string \<Rightarrow> session_store" where
  "deleteSession sessions sessionId = AList.delete sessionId sessions"

section \<open>Tokens (server/src/token.ts)\<close>

datatype log_level = debug | info | warn | error

record Config =
  port :: int
  challengeTimeoutMs :: int
  tokenExpiryMs :: int
  corsOrigins :: "string list"
  rateLimitEnabled :: bool
  rateLimitStartPerMin :: int
  rateLimitSubmitPerMin :: int
  rateLimitWindowMs :: int
  loggingEnabled :: bool
  logLevel :: log_level

record VerificationToken =
  token :: string
  tok_challengeId :: string
  issuedAt :: int
  tok_expiresAt :: int
  tok_clientIp :: "string option"

record ValidateResponse =
  vr_valid :: bool
  vr_challengeId :: "string option"
  vr_expiresAt :: "int option"
  vr_error :: "string option"

type_synonym token_store = "string \<rightharpoonup> VerificationToken"

text \<open>\<^verbatim>\<open>btoa(String.fromCharCode(...bytes))\<close>: standard base64 with padding.\<close>

definition b64 :: "nat \<Rightarrow> char" where
  "b64 n = ''ABCDEFGHIJKLMNOPQRSTUVWXYZabcdefghijklmnopqrstuvwxyz0123456789+/'' ! n"

fun btoa :: "nat list \<Rightarrow> string" where
  "btoa [] = []"
| "btoa [a] = [b64 (a div 4), b64 ((a mod 4) * 16), CHR ''='', CHR ''='']"
| "btoa [a, b] =
     [b64 (a div 4), b64 ((a mod 4) * 16 + b div 16), b64 ((b mod 16) * 4), CHR ''='']"
| "btoa (a # b # c # rest) =
     [b64 (a div 4), b64 ((a mod 4) * 16 + b div 16), b64 ((b mod 16) * 4 + c div 64),
      b64 (c mod 64)] @ btoa rest"

definition generateTokenString :: "(nat \<Rightarrow> 8 word) \<Rightarrow> string" where
  "generateTokenString bytes =
     (let base64 = btoa (map (\<lambda>i. unat (bytes i)) [0..<32]);
          urlSafe = filter (\<lambda>c. c \<noteq> CHR ''='')
                      (map (\<lambda>c. if c = CHR ''/'' then CHR ''_'' else c)
                         (map (\<lambda>c. if c = CHR ''+'' then CHR ''-'' else c) base64))
      in ''rcap_'' @ urlSafe)"

definition createToken ::
  "Config \<Rightarrow> string \<Rightarrow> string option \<Rightarrow> int \<Rightarrow> (nat \<Rightarrow> 8 word) \<Rightarrow> token_store
     \<Rightarrow> VerificationToken \<times> token_store" where
  "createToken config cid clientIp now bytes store =
     (let tokenData = \<lparr>token = generateTokenString bytes, tok_challengeId = cid, issuedAt = now,
                       tok_expiresAt = now + tokenExpiryMs config, tok_clientIp = clientIp\<rparr>
      in (tokenData, store(token tokenData \<mapsto> tokenData)))"

definition validateToken :: "string \<Rightarrow> int \<Rightarrow> token_store \<Rightarrow> ValidateResponse \<times> token_store" where
  "validateToken t now store =
     (if t = [] then
        (\<lparr>vr_valid = False, vr_challengeId = None, vr_expiresAt = None,
          vr_error = Some ''Token is required''\<rparr>, store)
      else if take 5 t \<noteq> ''rcap_'' then
        (\<lparr>vr_valid = False, vr_challengeId = None, vr_expiresAt = None,
          vr_error = Some ''Invalid token format''\<rparr>, store)
      else (case store t of
              None \<Rightarrow>
                (\<lparr>vr_valid = False, vr_challengeId = None, vr_expiresAt = None,
                  vr_error = Some ''Token not found or already used''\<rparr>, store)
            | Some tokenData \<Rightarrow>
                if now > tok_expiresAt tokenData then
                  (\<lparr>vr_valid = False, vr_challengeId = None, vr_expiresAt = None,
                    vr_error = Some ''Token expired''\<rparr>, store(t := None))
                else
                  (\<lparr>vr_valid = True, vr_challengeId = Some (tok_challengeId tokenData),
                    vr_expiresAt = Some (tok_expiresAt tokenData), vr_error = None\<rparr>,
                   store(t := None))))"

definition isTokenValid :: "string \<Rightarrow> int \<Rightarrow> token_store \<Rightarrow> bool \<times> token_store" where
  "isTokenValid t now store =
     (case store t of
        None \<Rightarrow> (False, store)
      | Some tokenData \<Rightarrow>
          if now > tok_expiresAt tokenData then (False, store(t := None)) else (True, store))"

definition getTokenInfo ::
  "string \<Rightarrow> int \<Rightarrow> token_store \<Rightarrow> VerificationToken option \<times> token_store" where
  "getTokenInfo t now store =
     (case store t of
        None \<Rightarrow> (None, store)
      | Some tokenData \<Rightarrow>
          if now > tok_expiresAt tokenData then (None, store(t := None))
          else (Some tokenData, store))"

definition cleanupTokens :: "int \<Rightarrow> token_store \<Rightarrow> token_store" where
  "cleanupTokens now store =
     (\<lambda>t. case store t of
             None \<Rightarrow> None
           | Some tokenData \<Rightarrow> if tok_expiresAt tokenData < now then None else Some tokenData)"

text \<open>
  The operations of the module on its store, each with the clock value it reads, and a
  run of them in order.
\<close>

datatype token_op =
    OpCreate Config string "string option" "nat \<Rightarrow> 8 word"
  | OpValidate string
  | OpIsValid string
  | OpGetInfo string
  | OpCleanup

fun token_step :: "int \<times> token_op \<Rightarrow> token_store \<Rightarrow> token_store" where
  "token_step (now, OpCreate config cid clientIp bytes) store =
     snd (createToken config cid clientIp now bytes store)"
| "token_step (now, OpValidate t) store = snd (validateToken t now store)"
| "token_step (now, OpIsValid t) store = snd (isTokenValid t now store)"
| "token_step (now, OpGetInfo t) store = snd (getTokenInfo t now store)"
| "token_step (now, OpCleanup) store = cleanupTokens now store"

definition token_run :: "(int \<times> token_op) list \<Rightarrow> token_store \<Rightarrow> token_store" where
  "token_run ops store = fold token_step ops store"

fun issues :: "string \<Rightarrow> int \<times> token_op \<Rightarrow> bool" where
  "issues t (now, OpCreate config cid clientIp bytes) \<longleftrightarrow> generateTokenString bytes = t"
| "issues t (now, other) \<longleftrightarrow> False"

fun redeems :: "string \<Rightarrow> int \<times> token_op \<Rightarrow> bool" where
  "redeems t (now, OpValidate t') \<longleftrightarrow> t' = t"
| "redeems t (now, other) \<longleftrightarrow> False"

section \<open>The /auth/submit handler (server/src/server.ts)\<close>

text \<open>
  The state the handler touches: the session store, the token store and the rate limiter's
  store for submissions. The request body is unreadable (\<^verbatim>\<open>req.json()\<close> throws, or the value
  has no properties to read) or carries the two fields \<^verbatim>\<open>sessionId\<close> and \<^verbatim>\<open>answer\<close>; for
  \<^verbatim>\<open>sessionId\<close>, \<^const>\<open>Other\<close> is a truthy value that is not a string, and a falsy one counts
  as \<^const>\<open>Null\<close>. The handler's clock reads and random draws are given by two records.
  Ahead of every route, the server answers 413 to a request whose \<^verbatim>\<open>Content-Length\<close> header
  is present, not empty and, read by \<^verbatim>\<open>parseInt\<close>, above \<^verbatim>\<open>MAX_REQUEST_BODY_SIZE\<close>; the
  header is an argument of the handler (\<open>None\<close> when the request has none).
  The \<^verbatim>\<open>try/catch\<close> around the body turns every exception into the 400 response
  \<^verbatim>\<open>Invalid request body\<close>. A request is modelled as one step: what other requests do
  while \<^verbatim>\<open>verifyCoherent\<close> awaits the oracle is outside the model, as are the log
  lines and the logger's failure counters.
\<close>

definition MAX_REQUEST_BODY_SIZE :: int where
  "MAX_REQUEST_BODY_SIZE = 100 * 1024"

record server_state =
  sessions :: session_store
  tokenStore :: token_store
  submitStore :: bucket_store

datatype submit_body = BodyUnreadable | Body js_value js_value

record submit_clock =
  atBucket :: int
  atRefill :: int
  atExpired :: int
  atAdvance :: int
  atPassed :: int
  atToken :: int
  atRemaining :: int

record submit_entropy =
  blockEntropy :: block_entropy
  tokenBytes :: "nat \<Rightarrow> 8 word"

datatype submit_response =
    BodyTooLarge
  | RateLimited "retry_ms option"
  | MissingFields
  | AnswerTooLong
  | SessionNotFound
  | SessionNotActive session_status
  | BlocksExhausted int
  | BlockExpired int SessionChallenge int int
  | Success string int "int option"
  | VerifyFailed "string list" int int "int option"
  | InvalidRequestBody

definition authSubmit ::
  "Config \<Rightarrow> oracle_env \<Rightarrow> submit_clock \<Rightarrow> submit_entropy \<Rightarrow> string \<Rightarrow> string option
     \<Rightarrow> submit_body \<Rightarrow> server_state \<Rightarrow> submit_response \<times> server_state \<times> string list" where
  "authSubmit config env clk ent clientIp contentLength body st =
     (if (case contentLength of
            None \<Rightarrow> False
          | Some h \<Rightarrow> h \<noteq> [] \<and>
              (case parseInt10 h of None \<Rightarrow> False | Some n \<Rightarrow> n > MAX_REQUEST_BODY_SIZE))
      then (BodyTooLarge, st, [])
      else
       (let (submitStore1, rateCheck) =
              checkRateLimit (submitStore st) clientIp RATE_LIMITS_submit (atBucket clk) (atRefill clk);
            st1 = st\<lparr>submitStore := submitStore1\<rparr>
        in if \<not> allowed rateCheck then (RateLimited (retryAfterMs rateCheck), st1, [])
           else
            (case body of
               BodyUnreadable \<Rightarrow> (InvalidRequestBody, st1, [])
             | Body sessionId answer \<Rightarrow>
                 if sessionId = Undefined \<or> sessionId = Null \<or> sessionId = Str [] \<or>
                    answer = Undefined
                 then (MissingFields, st1, [])
                 else if (case answer of Str a \<Rightarrow> length a > MAX_SENTENCE_LENGTH | _ \<Rightarrow> False)
                 then (AnswerTooLong, st1, [])
                 else
                  (case (case sessionId of Str sid \<Rightarrow> getSession (sessions st1) sid | _ \<Rightarrow> None) of
                     None \<Rightarrow> (SessionNotFound, st1, [])
                   | Some session \<Rightarrow>
                       (let sid = (case sessionId of Str s \<Rightarrow> s | _ \<Rightarrow> [])
                        in if status session \<noteq> active
                           then (SessionNotActive (status session), st1, [])
                           else if isBlockExpired session (atExpired clk)
                           then
                            (let (advanced, session') =
                                   advanceToNextBlock session (blockEntropy ent) (atAdvance clk);
                                 st2 = st1\<lparr>sessions := AList.update sid session' (sessions st1)\<rparr>
                             in if \<not> advanced
                                then (BlocksExhausted (currentBlock session'), st2, [])
                                else (BlockExpired (currentBlock session') (challenge session')
                                        (blockTimeoutMs session')
                                        (blockStartedAt session' + blockTimeoutMs session'),
                                      st2, []))
                           else
                            (case verifyCoherent env (challenge session) answer of
                               Inl _ \<Rightarrow> (InvalidRequestBody, st1, [])
                             | Inr (verifyResult, calls) \<Rightarrow>
                                 if valid verifyResult
                                 then
                                  (let session' = markSessionPassed session (atPassed clk);
                                       (tokenData, tokenStore') =
                                          createToken config (ch_id (challenge session'))
                                            (Some clientIp) (atToken clk) (tokenBytes ent)
                                            (tokenStore st1)
                                   in (Success (token tokenData) (currentBlock session')
                                         (coherenceScore verifyResult),
                                       st1\<lparr>sessions := AList.update sid session' (sessions st1),
                                           tokenStore := tokenStore'\<rparr>,
                                       calls))
                                 else (VerifyFailed (errors verifyResult) (currentBlock session)
                                         (getBlockTimeRemaining session (atRemaining clk))
                                         (coherenceScore verifyResult),
                                       st1, calls)))))))"

section \<open>Notions used to state the properties\<close>

text \<open>
  The condition under which the oracle gives no usable score; the text that
  \<^const>\<open>verifyCoherent\<close> examines and the messages of its checks taken one by one; words
  made of \<^verbatim>\<open>\w\<close> characters and whole-word occurrence as the specification words it; a
  session within the maximum age; the not-found response of the token module; and, for the
  handler, a request whose declared length is within the body limit and that the rate
  limiter admits, the state after its admission, and an answer that passes the checks made
  ahead of the session lookup.
\<close>

definition oracleUnavailable :: "oracle_env \<Rightarrow> string \<Rightarrow> bool" where
  "oracleUnavailable env sentence \<longleftrightarrow>
     apiKey env = None \<or> apiKey env = Some [] \<or>
     fetch env sentence = FetchThrows \<or>
     (\<exists>body. fetch env sentence = Response False body) \<or>
     fetch env sentence = Response True BodyThrows \<or>
     (\<exists>c. fetch env sentence = Response True (BodyContent c) \<and>
          (case parseInt10 (case c of None \<Rightarrow> [] | Some s \<Rightarrow> trim s) of
             None \<Rightarrow> True | Some n \<Rightarrow> n < 1 \<or> n > 10))"

definition answerText :: "js_value \<Rightarrow> string" where
  "answerText answer = (case answer of Str s \<Rightarrow> trim s | _ \<Rightarrow> [])"

definition checksPass :: "'a CoherentChallenge_scheme \<Rightarrow> string \<Rightarrow> bool" where
  "checksPass ch sentence \<longleftrightarrow>
     fst (containsAllWords sentence (words ch)) \<and>
     int (countWords sentence) = wordCount ch \<and>
     fst (basicGrammarCheck sentence)"

definition missingWordsError :: "'a CoherentChallenge_scheme \<Rightarrow> string \<Rightarrow> string list" where
  "missingWordsError ch sentence =
     (if fst (containsAllWords sentence (words ch)) then []
      else [''Missing words: '' @ join (snd (containsAllWords sentence (words ch))) '', ''])"

definition wordCountError :: "'a CoherentChallenge_scheme \<Rightarrow> string \<Rightarrow> string list" where
  "wordCountError ch sentence =
     (if int (countWords sentence) = wordCount ch then []
      else [''Word count: expected '' @ show_int (wordCount ch) @
            '', got '' @ show_int (int (countWords sentence))])"

definition grammarError :: "string \<Rightarrow> string list" where
  "grammarError sentence =
     (if fst (basicGrammarCheck sentence) then []
      else [case snd (basicGrammarCheck sentence) of Some e \<Rightarrow> e | None \<Rightarrow> ''undefined''])"

definition coherenceError :: "oracle_env \<Rightarrow> string \<Rightarrow> string list" where
  "coherenceError env sentence =
     (if score (checkCoherence env sentence) < 7
      then [''Sentence not coherent enough (score: '' @
            show_int (score (checkCoherence env sentence)) @ ''/10, need 7+)'']
      else [])"

definition plainWord :: "string \<Rightarrow> bool" where
  "plainWord w \<longleftrightarrow> w \<noteq> [] \<and> (\<forall>c \<in> set w. isWordChar c)"

definition occursAsWholeWord :: "string \<Rightarrow> string \<Rightarrow> bool" where
  "occursAsWholeWord word candidate \<longleftrightarrow>
     (\<exists>pre u post. candidate = pre @ u @ post \<and> toLowerCase u = toLowerCase word \<and>
        (pre = [] \<or> \<not> isWordChar (last pre)) \<and> (post = [] \<or> \<not> isWordChar (hd post)))"

definition lastOr :: "char option \<Rightarrow> string \<Rightarrow> char option" where
  "lastOr before pre = (if pre = [] then before else Some (last pre))"

definition notExpired :: "int \<Rightarrow> string \<times> AuthSession \<Rightarrow> bool" where
  "notExpired now p \<longleftrightarrow> \<not> (now - sessionCreatedAt (snd p) > SESSION_MAX_AGE_MS)"

definition notFound :: ValidateResponse where
  "notFound = \<lparr>vr_valid = False, vr_challengeId = None, vr_expiresAt = None,
                vr_error = Some ''Token not found or already used''\<rparr>"

definition withinBodyLimit :: "string option \<Rightarrow> bool" where
  "withinBodyLimit contentLength \<longleftrightarrow>
     (case contentLength of
        None \<Rightarrow> True
      | Some h \<Rightarrow> h = [] \<or>
          (case parseInt10 h of None \<Rightarrow> True | Some n \<Rightarrow> n \<le> MAX_REQUEST_BODY_SIZE))"

definition admitted :: "server_state \<Rightarrow> string \<Rightarrow> submit_clock \<Rightarrow> bool" where
  "admitted st clientIp clk \<longleftrightarrow>
     allowed (snd (checkRateLimit (submitStore st) clientIp RATE_LIMITS_submit
                     (atBucket clk) (atRefill clk)))"

definition afterRateLimit :: "server_state \<Rightarrow> string \<Rightarrow> submit_clock \<Rightarrow> server_state" where
  "afterRateLimit st clientIp clk =
     st\<lparr>submitStore := fst (checkRateLimit (submitStore st) clientIp RATE_LIMITS_submit
                               (atBucket clk) (atRefill clk))\<rparr>"

definition wellFormedAnswer :: "js_value \<Rightarrow> bool" where
  "wellFormedAnswer answer \<longleftrightarrow>
     answer \<noteq> Undefined \<and> (case answer of Str a \<Rightarrow> length a \<le> MAX_SENTENCE_LENGTH | _ \<Rightarrow> True)"

section \<open>Example data\<close>

text \<open>Concrete draws, a session and a configuration, used where a property is run on an input.\<close>

definition zeroEntropy :: session_entropy where
  "zeroEntropy =
     \<lparr>challengeEntropy =
        \<lparr>nounBytes = (\<lambda>i. 0), adjectiveBytes = (\<lambda>i. 0), verbBytes = (\<lambda>i. 0),
         timeBytes = (\<lambda>i. 0), shuffleOrder = (\<lambda>xs. xs), randomByte = 0\<rparr>,
      challengeIdBytes = (\<lambda>i. 0), sessionIdBytes = (\<lambda>i. 0)\<rparr>"

definition oldSession :: AuthSession where
  "oldSession =
     \<lparr>ses_id = ''ses_old'', ses_clientIp = ''10.0.0.1'', currentBlock = 1, maxBlocks = 3,
      challenge = \<lparr>words = [''apple'', ''river'', ''purple'', ''dance'', ''autumn''],
                   wordCount = 15, timeoutMs = 10000, ch_id = ''ch_old''\<rparr>,
      blockStartedAt = 0, blockTimeoutMs = 9000, sessionCreatedAt = 0,
      status = active, passedAt = None, failedAt = None\<rparr>"

definition exConfig :: Config where
  "exConfig = \<lparr>port = 9816, challengeTimeoutMs = 9000, tokenExpiryMs = 60000,
     corsOrigins = [''http://localhost:3000''], rateLimitEnabled = True,
     rateLimitStartPerMin = 10, rateLimitSubmitPerMin = 30, rateLimitWindowMs = 60000,
     loggingEnabled = False, logLevel = error\<rparr>"

definition noOracle :: oracle_env where
  "noOracle = \<lparr>apiKey = None, fetch = (\<lambda>s. FetchThrows)\<rparr>"

definition clockAt :: "int \<Rightarrow> submit_clock" where
  "clockAt t = \<lparr>atBucket = t, atRefill = t, atExpired = t, atAdvance = t, atPassed = t,
                atToken = t, atRemaining = t\<rparr>"

definition zeroSubmitEntropy :: submit_entropy where
  "zeroSubmitEntropy =
     \<lparr>blockEntropy =
        \<lparr>challengeEntropy =
           \<lparr>nounBytes = (\<lambda>i. 0), adjectiveBytes = (\<lambda>i. 0), verbBytes = (\<lambda>i. 0),
            timeBytes = (\<lambda>i. 0), shuffleOrder = (\<lambda>xs. xs), randomByte = 0\<rparr>,
         challengeIdBytes = (\<lambda>i. 0)\<rparr>,
      tokenBytes = (\<lambda>i. 0)\<rparr>"

definition oneSessionState :: server_state where
  "oneSessionState = \<lparr>sessions = [(''ses_old'', oldSession)], tokenStore = Map.empty,
                       submitStore = Map.empty\<rparr>"

section \<open>Properties of the rate limiter\<close>

lemma checkRateLimit_existing:
  assumes "store ip = Some b"
  shows "checkRateLimit store ip config tGet tRefill =
     (let bucket = refillBucket b config tRefill
      in if tokens bucket \<ge> 1
         then (store(ip \<mapsto> bucket\<lparr>tokens := tokens bucket - 1\<rparr>),
               \<lparr>allowed = True, retryAfterMs = None\<rparr>)
         else (store(ip \<mapsto> bucket),
                   \<lparr>allowed = False, retryAfterMs = Some (if refillRate config = 0 then Infinity
                            else Finite \<lceil>((1 - tokens bucket) / refillRate config) * 1000\<rceil>)\<rparr>))"
  using assms by (simp add: checkRateLimit_def getBucket_def Let_def)

lemma checkRateLimit_fresh:
  assumes "store ip = None"
  shows "checkRateLimit store ip config tGet tRefill =
     checkRateLimit (store(ip \<mapsto> \<lparr>tokens = maxTokens config, lastRefill = tGet\<rparr>)) ip config tGet tRefill"
  using assms by (simp add: checkRateLimit_def getBucket_def Let_def)

lemma refill_same_time:
  "lastRefill b = t \<Longrightarrow> tokens b \<le> maxTokens config \<Longrightarrow> refillBucket b config t = b"
  by (simp add: refillBucket_def Let_def min_def)

lemma run_same_time_full:
  assumes "store ip = Some b" "lastRefill b = t" "tokens b = real k" "tokens b \<le> maxTokens config"
  shows "checkRateLimit_run store ip config (replicate k (t, t)) =
           (store(ip \<mapsto> b\<lparr>tokens := 0\<rparr>), replicate k \<lparr>allowed = True, retryAfterMs = None\<rparr>)"
  using assms
proof (induction k arbitrary: store b)
  case 0
  then show ?case by (auto simp: fun_upd_idem_iff)
next
  case (Suc k)
  have r: "refillBucket b config t = b" using Suc.prems by (simp add: refill_same_time)
  have ge: "tokens b \<ge> 1" using Suc.prems by simp
  let ?b' = "b\<lparr>tokens := tokens b - 1\<rparr>"
  have step: "checkRateLimit store ip config t t = (store(ip \<mapsto> ?b'), \<lparr>allowed = True, retryAfterMs = None\<rparr>)"
    using Suc.prems(1) r ge by (simp add: checkRateLimit_existing)
  have IH: "checkRateLimit_run (store(ip \<mapsto> ?b')) ip config (replicate k (t, t)) =
           ((store(ip \<mapsto> ?b'))(ip \<mapsto> ?b'\<lparr>tokens := 0\<rparr>), replicate k \<lparr>allowed = True, retryAfterMs = None\<rparr>)"
    by (rule Suc.IH) (use Suc.prems in auto)
  show ?case using step IH by (auto simp: fun_upd_def)
qed


text \<open>
  Claim C6. A fresh identity (no bucket yet) against a limiter whose capacity is the whole
  number \<open>N\<close>, with a positive refill rate: \<open>N\<close> calls made at one and the same clock
  value are all admitted, and the next call at that clock value is denied with a retry-after
  of \<open>(1 - tokens) / refillRate\<close> seconds, given in milliseconds rounded up, which is
  positive; \<open>tokens\<close> is the count left in the bucket at the denial.
\<close>

theorem checkRateLimit_fresh_capacity:
  assumes fresh: "store ip = None"
      and cap: "maxTokens config = real N"
      and rate: "0 < refillRate config"
  shows "\<exists>storeN store' r b.
           checkRateLimit_run store ip config (replicate N (t, t)) =
             (storeN, replicate N \<lparr>allowed = True, retryAfterMs = None\<rparr>)
         \<and> checkRateLimit storeN ip config t t = (store', r)
         \<and> allowed r = False
         \<and> store' ip = Some b
         \<and> retryAfterMs r = Some (Finite \<lceil>((1 - tokens b) / refillRate config) * 1000\<rceil>)
         \<and> 0 < \<lceil>((1 - tokens b) / refillRate config) * 1000\<rceil>"
proof (cases N)
  case 0
  let ?b = "\<lparr>tokens = maxTokens config, lastRefill = t\<rparr>"
  have "refillBucket ?b config t = ?b" by (simp add: refill_same_time)
  then have "checkRateLimit store ip config t t =
      (store(ip \<mapsto> ?b), \<lparr>allowed = False,
         retryAfterMs = Some (Finite \<lceil>((1 - tokens ?b) / refillRate config) * 1000\<rceil>)\<rparr>)"
    using fresh cap 0 rate by (simp add: checkRateLimit_fresh checkRateLimit_existing)
  moreover have "0 < \<lceil>((1 - tokens ?b) / refillRate config) * 1000\<rceil>"
    using cap 0 rate by simp
  ultimately show ?thesis using 0 by simp
next
  case (Suc m)
  let ?b0 = "\<lparr>tokens = maxTokens config, lastRefill = t\<rparr>"
  let ?s0 = "store(ip \<mapsto> ?b0)"
  let ?bN = "?b0\<lparr>tokens := 0\<rparr>"
  let ?sN = "?s0(ip \<mapsto> ?bN)"
  have run0: "checkRateLimit_run ?s0 ip config (replicate N (t, t)) =
           (?sN, replicate N \<lparr>allowed = True, retryAfterMs = None\<rparr>)"
    by (rule run_same_time_full) (simp_all add: cap)
  have "checkRateLimit_run store ip config (replicate N (t, t)) =
        checkRateLimit_run ?s0 ip config (replicate N (t, t))"
    using Suc fresh by (simp add: checkRateLimit_fresh)
  with run0 have run: "checkRateLimit_run store ip config (replicate N (t, t)) =
           (?sN, replicate N \<lparr>allowed = True, retryAfterMs = None\<rparr>)" by simp
  have "refillBucket ?bN config t = ?bN" using cap by (simp add: refill_same_time)
  then have last: "checkRateLimit ?sN ip config t t =
      (?sN(ip \<mapsto> ?bN), \<lparr>allowed = False,
         retryAfterMs = Some (Finite \<lceil>((1 - tokens ?bN) / refillRate config) * 1000\<rceil>)\<rparr>)"
    using rate by (simp add: checkRateLimit_existing)
  have pos: "0 < \<lceil>((1 - tokens ?bN) / refillRate config) * 1000\<rceil>"
    using rate by simp
  show ?thesis using run last pos by simp
qed

lemma refill_bounds:
  assumes "0 \<le> maxTokens config" "0 \<le> refillRate config" "lastRefill b \<le> now" "bucket_in_bounds config b"
  shows "bucket_in_bounds config (refillBucket b config now)"
proof -
  have "0 \<le> (real_of_int (now - lastRefill b) / 1000) * refillRate config"
    using assms by simp
  then show ?thesis using assms by (simp add: bucket_in_bounds_def refillBucket_def Let_def min_def)
qed

lemma refill_lastRefill: "lastRefill (refillBucket b config now) = now"
  by (simp add: refillBucket_def Let_def)

lemma check_existing_bucket:
  assumes "store ip = Some b"
  shows "\<exists>b'. fst (checkRateLimit store ip config tGet tRefill) ip = Some b'
            \<and> lastRefill b' = tRefill
            \<and> tokens b' = (if allowed (snd (checkRateLimit store ip config tGet tRefill))
                            then tokens (refillBucket b config tRefill) - 1
                            else tokens (refillBucket b config tRefill))
            \<and> allowed (snd (checkRateLimit store ip config tGet tRefill)) = (1 \<le> tokens (refillBucket b config tRefill))"
  using assms by (simp add: checkRateLimit_existing Let_def refill_lastRefill)

lemma check_keeps_bounds:
  assumes cfg: "0 \<le> maxTokens config" "0 \<le> refillRate config"
      and b: "store ip = Some b" "bucket_in_bounds config b" "lastRefill b \<le> tRefill"
  shows "\<exists>b'. fst (checkRateLimit store ip config tGet tRefill) ip = Some b'
            \<and> bucket_in_bounds config b' \<and> lastRefill b' = tRefill"
proof -
  have rb: "bucket_in_bounds config (refillBucket b config tRefill)"
    using cfg b by (simp add: refill_bounds)
  obtain b' where b': "fst (checkRateLimit store ip config tGet tRefill) ip = Some b'"
     "lastRefill b' = tRefill"
     "tokens b' = (if allowed (snd (checkRateLimit store ip config tGet tRefill))
                            then tokens (refillBucket b config tRefill) - 1
                            else tokens (refillBucket b config tRefill))"
     "allowed (snd (checkRateLimit store ip config tGet tRefill)) = (1 \<le> tokens (refillBucket b config tRefill))"
    using check_existing_bucket[where store=store and ip=ip and b=b and config=config and tGet=tGet and tRefill=tRefill] b(1) by blast
  have "bucket_in_bounds config b'"
    using rb b'(3,4) by (auto simp: bucket_in_bounds_def)
  with b' show ?thesis by blast
qed

lemma run_keeps_bounds:
  assumes cfg: "0 \<le> maxTokens config" "0 \<le> refillRate config"
  shows "sorted (clock_reads ts) \<Longrightarrow> store ip = Some b \<Longrightarrow> bucket_in_bounds config b \<Longrightarrow>
         (\<forall>t \<in> set (clock_reads ts). lastRefill b \<le> t) \<Longrightarrow>
         \<exists>b'. fst (checkRateLimit_run store ip config ts) ip = Some b' \<and> bucket_in_bounds config b'"
proof (induction ts arbitrary: store b)
  case Nil
  then show ?case by simp
next
  case (Cons p ts)
  obtain tGet tRefill where p: "p = (tGet, tRefill)" by (cases p)
  have le: "lastRefill b \<le> tRefill" using Cons.prems(4) p by (simp add: clock_reads_def)
  obtain b1 where b1: "fst (checkRateLimit store ip config tGet tRefill) ip = Some b1"
      "bucket_in_bounds config b1" "lastRefill b1 = tRefill"
    using check_keeps_bounds[where store=store and ip=ip and b=b and config=config and tGet=tGet and tRefill=tRefill] cfg Cons.prems(2) Cons.prems(3) le by blast
  have srt: "sorted (clock_reads ts)" and later: "\<forall>t \<in> set (clock_reads ts). tRefill \<le> t"
    using Cons.prems(1) p by (auto simp: clock_reads_def)
  obtain b' where "fst (checkRateLimit_run (fst (checkRateLimit store ip config tGet tRefill)) ip config ts) ip = Some b'"
      "bucket_in_bounds config b'"
    using Cons.IH[where store="fst (checkRateLimit store ip config tGet tRefill)" and b=b1] srt b1 later by auto
  then show ?case using p by (simp add: split_beta Let_def)
qed

lemma fresh_bucket_bounds:
  "0 \<le> maxTokens config \<Longrightarrow> bucket_in_bounds config \<lparr>tokens = maxTokens config, lastRefill = t\<rparr>"
  by (simp add: bucket_in_bounds_def)

lemma run_keeps_bounds_any:
  assumes cfg: "0 \<le> maxTokens config" "0 \<le> refillRate config"
      and srt: "sorted (clock_reads ts)"
      and init: "\<forall>b. store ip = Some b \<longrightarrow>
                   bucket_in_bounds config b \<and> (\<forall>t \<in> set (clock_reads ts). lastRefill b \<le> t)"
      and res: "fst (checkRateLimit_run store ip config ts) ip = Some b'"
  shows "bucket_in_bounds config b'"
proof (cases "store ip")
  case (Some b)
  then show ?thesis using run_keeps_bounds[where store=store and ip=ip and b=b and config=config and ts=ts] cfg srt init res by auto
next
  case None
  show ?thesis
  proof (cases ts)
    case Nil
    then show ?thesis using None res by simp
  next
    case (Cons p ts')
    obtain tGet tRefill where p: "p = (tGet, tRefill)" by (cases p)
    let ?b0 = "\<lparr>tokens = maxTokens config, lastRefill = tGet\<rparr>"
    let ?s0 = "store(ip \<mapsto> ?b0)"
    have eq: "checkRateLimit_run store ip config ts = checkRateLimit_run ?s0 ip config ts"
      using None Cons p by (simp add: checkRateLimit_fresh)
    have "\<forall>t \<in> set (clock_reads ts). lastRefill ?b0 \<le> t"
      using srt Cons p by (auto simp: clock_reads_def)
    then obtain b'' where "fst (checkRateLimit_run ?s0 ip config ts) ip = Some b''" "bucket_in_bounds config b''"
      using run_keeps_bounds[where store="?s0" and ip=ip and b="?b0" and config=config and ts=ts] cfg srt by (auto simp: fresh_bucket_bounds)
    then show ?thesis using eq res by simp
  qed
qed

lemma clock_reads_append: "clock_reads (xs @ ys) = clock_reads xs @ clock_reads ys"
  by (simp add: clock_reads_def)

lemma sorted_clock_reads_take: "sorted (clock_reads ts) \<Longrightarrow> sorted (clock_reads (take n ts))"
proof -
  assume "sorted (clock_reads ts)"
  then have "sorted (clock_reads (take n ts @ drop n ts))" by simp
  then show ?thesis unfolding clock_reads_append by (simp add: sorted_append)
qed

lemma set_clock_reads_take: "set (clock_reads (take n ts)) \<subseteq> set (clock_reads ts)"
proof -
  have "set (clock_reads (take n ts)) \<subseteq> set (clock_reads (take n ts @ drop n ts))"
    unfolding clock_reads_append by simp
  then show ?thesis by simp
qed

text \<open>
  Claim C9. With a non-negative capacity and refill rate and clock reads that never go back,
  the token count of an identity's bucket stays between zero and the capacity after every
  prefix of a run of \<^const>\<open>checkRateLimit\<close> calls; a refill sets the count to the old count plus
  elapsed seconds times the rate, capped at the capacity; an admitted call leaves the
  refilled count minus exactly one, a denied call leaves the refilled count.
\<close>

theorem checkRateLimit_run_bounds:
  assumes cfg: "0 \<le> maxTokens config" "0 \<le> refillRate config"
      and srt: "sorted (clock_reads ts)"
      and init: "\<forall>b. store ip = Some b \<longrightarrow>
                   bucket_in_bounds config b \<and> (\<forall>t \<in> set (clock_reads ts). lastRefill b \<le> t)"
  shows "(\<forall>n b'. fst (checkRateLimit_run store ip config (take n ts)) ip = Some b' \<longrightarrow>
            0 \<le> tokens b' \<and> tokens b' \<le> maxTokens config)
       \<and> (\<forall>b now. tokens (refillBucket b config now) =
            min (maxTokens config)
                (tokens b + real_of_int (now - lastRefill b) / 1000 * refillRate config))
       \<and> (\<forall>s b tGet tRefill. s ip = Some b \<longrightarrow>
            (\<exists>b'. fst (checkRateLimit s ip config tGet tRefill) ip = Some b' \<and>
                  tokens b' =
                    (if allowed (snd (checkRateLimit s ip config tGet tRefill))
                     then tokens (refillBucket b config tRefill) - 1
                     else tokens (refillBucket b config tRefill))))"
proof (intro conjI allI impI)
  fix n b'
  assume res: "fst (checkRateLimit_run store ip config (take n ts)) ip = Some b'"
  have s: "sorted (clock_reads (take n ts))" using srt by (rule sorted_clock_reads_take)
  have "set (clock_reads (take n ts)) \<subseteq> set (clock_reads ts)"
    by (rule set_clock_reads_take)
  then have i: "\<forall>b. store ip = Some b \<longrightarrow>
                   bucket_in_bounds config b \<and> (\<forall>t \<in> set (clock_reads (take n ts)). lastRefill b \<le> t)"
    using init by blast
  have "bucket_in_bounds config b'" by (rule run_keeps_bounds_any[OF cfg s i res])
  then show "0 \<le> tokens b'" "tokens b' \<le> maxTokens config" by (simp_all add: bucket_in_bounds_def)
next
  fix b now
  show "tokens (refillBucket b config now) =
            min (maxTokens config)
                (tokens b + real_of_int (now - lastRefill b) / 1000 * refillRate config)"
    by (simp add: refillBucket_def Let_def)
next
  fix s :: bucket_store and b tGet tRefill
  assume "s ip = Some b"
  then show "\<exists>b'. fst (checkRateLimit s ip config tGet tRefill) ip = Some b' \<and>
                  tokens b' =
                    (if allowed (snd (checkRateLimit s ip config tGet tRefill))
                     then tokens (refillBucket b config tRefill) - 1
                     else tokens (refillBucket b config tRefill))"
    using check_existing_bucket[where store=s and ip=ip and b=b and config=config and tGet=tGet and tRefill=tRefill] by blast
qed

theorem checkRateLimit_run_bounds_witness:
  "(0::real) \<le> maxTokens RATE_LIMITS_submit \<and> 0 \<le> refillRate RATE_LIMITS_submit
   \<and> sorted (clock_reads [(0, 0), (1000, 1000), (1500, 1500)])
   \<and> (\<exists>b'. fst (checkRateLimit_run (Map.empty(''10.0.0.1'' \<mapsto> \<lparr>tokens = 1, lastRefill = 0\<rparr>))
              ''10.0.0.1'' RATE_LIMITS_submit [(0, 0), (1000, 1000), (1500, 1500)]) ''10.0.0.1'' = Some b'
           \<and> 0 \<le> tokens b' \<and> tokens b' \<le> maxTokens RATE_LIMITS_submit)"
proof -
  let ?store = "Map.empty(''10.0.0.1'' \<mapsto> \<lparr>tokens = 1, lastRefill = 0\<rparr>)"
  let ?ts = "[(0, 0), (1000, 1000), (1500, 1500)] :: (int \<times> int) list"
  have h1: "0 \<le> maxTokens RATE_LIMITS_submit" by (simp add: RATE_LIMITS_submit_def)
  have h2: "0 \<le> refillRate RATE_LIMITS_submit" by (simp add: RATE_LIMITS_submit_def)
  have h3: "sorted (clock_reads ?ts)" by (simp add: clock_reads_def)
  have h4: "\<forall>b. ?store ''10.0.0.1'' = Some b \<longrightarrow>
              bucket_in_bounds RATE_LIMITS_submit b \<and> (\<forall>t \<in> set (clock_reads ?ts). lastRefill b \<le> t)"
    by (simp add: RATE_LIMITS_submit_def clock_reads_def bucket_in_bounds_def)
  have "\<forall>n b'. fst (checkRateLimit_run ?store ''10.0.0.1'' RATE_LIMITS_submit (take n ?ts)) ''10.0.0.1'' = Some b' \<longrightarrow>
            0 \<le> tokens b' \<and> tokens b' \<le> maxTokens RATE_LIMITS_submit"
    using checkRateLimit_run_bounds[where config = RATE_LIMITS_submit and ts = "?ts" and store = "?store" and ip = "''10.0.0.1''"]
          h1 h2 h3 h4 by blast
  then have "\<forall>b'. fst (checkRateLimit_run ?store ''10.0.0.1'' RATE_LIMITS_submit (take 3 ?ts)) ''10.0.0.1'' = Some b' \<longrightarrow>
            0 \<le> tokens b' \<and> tokens b' \<le> maxTokens RATE_LIMITS_submit" by blast
  then have bnd: "\<forall>b'. fst (checkRateLimit_run ?store ''10.0.0.1'' RATE_LIMITS_submit ?ts) ''10.0.0.1'' = Some b' \<longrightarrow>
            0 \<le> tokens b' \<and> tokens b' \<le> maxTokens RATE_LIMITS_submit" by simp
  have ex: "\<exists>b'. fst (checkRateLimit_run ?store ''10.0.0.1'' RATE_LIMITS_submit ?ts) ''10.0.0.1'' = Some b'"
    by (simp add: checkRateLimit_def getBucket_def Let_def split_beta)
  from ex bnd h1 h2 h3 show ?thesis by blast
qed

theorem checkRateLimit_fresh_capacity_witness:
  "Map.empty ''10.0.0.1'' = (None :: TokenBucket option)
   \<and> maxTokens RATE_LIMITS_challenge = real 10
   \<and> 0 < refillRate RATE_LIMITS_challenge
   \<and> (\<exists>storeN store' r b.
           checkRateLimit_run Map.empty ''10.0.0.1'' RATE_LIMITS_challenge (replicate 10 (5, 5)) =
             (storeN, replicate 10 \<lparr>allowed = True, retryAfterMs = None\<rparr>)
         \<and> checkRateLimit storeN ''10.0.0.1'' RATE_LIMITS_challenge 5 5 = (store', r)
         \<and> allowed r = False
         \<and> store' ''10.0.0.1'' = Some b
         \<and> retryAfterMs r = Some (Finite \<lceil>((1 - tokens b) / refillRate RATE_LIMITS_challenge) * 1000\<rceil>)
         \<and> 0 < \<lceil>((1 - tokens b) / refillRate RATE_LIMITS_challenge) * 1000\<rceil>)"
  using checkRateLimit_fresh_capacity[of Map.empty "''10.0.0.1''" RATE_LIMITS_challenge 10 5]
  by (simp add: RATE_LIMITS_challenge_def)

section \<open>Properties of the verification pipeline\<close>

lemma matchesHere_iff:
  "matchesHere before w s \<longleftrightarrow>
     (\<exists>post. s = w @ post \<and> wordBoundary before (firstChar (w @ post)) \<and>
             wordBoundary (lastOr before w) (firstChar post))"
proof
  assume m: "matchesHere before w s"
  then have "s = w @ drop (length w) s"
    by (metis append_take_drop_id matchesHere_def)
  with m show "\<exists>post. s = w @ post \<and> wordBoundary before (firstChar (w @ post)) \<and>
             wordBoundary (lastOr before w) (firstChar post)"
    unfolding matchesHere_def lastOr_def by (intro exI[of _ "drop (length w) s"]) auto
next
  assume "\<exists>post. s = w @ post \<and> wordBoundary before (firstChar (w @ post)) \<and>
             wordBoundary (lastOr before w) (firstChar post)"
  then show "matchesHere before w s"
    unfolding matchesHere_def lastOr_def by auto
qed

lemma testFrom_iff:
  "testFrom before w s \<longleftrightarrow>
     (\<exists>pre post. s = pre @ w @ post \<and>
        wordBoundary (lastOr before pre) (firstChar (w @ post)) \<and>
        wordBoundary (lastOr (lastOr before pre) w) (firstChar post))"
proof (induction s arbitrary: before)
  case Nil
  show ?case by (auto simp: matchesHere_iff lastOr_def)
next
  case (Cons c cs)
  have "testFrom before w (c # cs) \<longleftrightarrow> matchesHere before w (c # cs) \<or> testFrom (Some c) w cs" by simp
  also have "\<dots> \<longleftrightarrow>
     (\<exists>post. c # cs = [] @ w @ post \<and> wordBoundary (lastOr before []) (firstChar (w @ post)) \<and>
             wordBoundary (lastOr (lastOr before []) w) (firstChar post)) \<or>
     (\<exists>pre post. c # cs = (c # pre) @ w @ post \<and>
        wordBoundary (lastOr before (c # pre)) (firstChar (w @ post)) \<and>
        wordBoundary (lastOr (lastOr before (c # pre)) w) (firstChar post))"
    unfolding matchesHere_iff Cons.IH by (simp add: lastOr_def)
  also have "\<dots> \<longleftrightarrow>
     (\<exists>pre post. c # cs = pre @ w @ post \<and>
        wordBoundary (lastOr before pre) (firstChar (w @ post)) \<and>
        wordBoundary (lastOr (lastOr before pre) w) (firstChar post))"
  proof
    assume "(\<exists>post. c # cs = [] @ w @ post \<and> wordBoundary (lastOr before []) (firstChar (w @ post)) \<and>
             wordBoundary (lastOr (lastOr before []) w) (firstChar post)) \<or>
     (\<exists>pre post. c # cs = (c # pre) @ w @ post \<and>
        wordBoundary (lastOr before (c # pre)) (firstChar (w @ post)) \<and>
        wordBoundary (lastOr (lastOr before (c # pre)) w) (firstChar post))"
    then show "\<exists>pre post. c # cs = pre @ w @ post \<and>
        wordBoundary (lastOr before pre) (firstChar (w @ post)) \<and>
        wordBoundary (lastOr (lastOr before pre) w) (firstChar post)"
      by blast
  next
    assume "\<exists>pre post. c # cs = pre @ w @ post \<and>
        wordBoundary (lastOr before pre) (firstChar (w @ post)) \<and>
        wordBoundary (lastOr (lastOr before pre) w) (firstChar post)"
    then obtain pre post where h: "c # cs = pre @ w @ post"
        "wordBoundary (lastOr before pre) (firstChar (w @ post))"
        "wordBoundary (lastOr (lastOr before pre) w) (firstChar post)" by blast
    show "(\<exists>post. c # cs = [] @ w @ post \<and> wordBoundary (lastOr before []) (firstChar (w @ post)) \<and>
             wordBoundary (lastOr (lastOr before []) w) (firstChar post)) \<or>
     (\<exists>pre post. c # cs = (c # pre) @ w @ post \<and>
        wordBoundary (lastOr before (c # pre)) (firstChar (w @ post)) \<and>
        wordBoundary (lastOr (lastOr before (c # pre)) w) (firstChar post))"
    proof (cases pre)
      case Nil
      with h show ?thesis by blast
    next
      case (Cons p ps)
      with h have "p = c" by simp
      with h Cons show ?thesis by blast
    qed
  qed
  finally show ?case .
qed

lemma isWordChar_lowerChar: "isWordChar (lowerChar c) = isWordChar c"
  unfolding isWordChar_def lowerChar_def Let_def
  by (auto simp: of_char_of)

lemma plainWord_lower: "plainWord w \<Longrightarrow> plainWord (toLowerCase w)"
  by (auto simp: plainWord_def toLowerCase_def isWordChar_lowerChar)

lemma wordRegexTest_plain:
  assumes "plainWord w"
  shows "wordRegexTest w s \<longleftrightarrow>
     (\<exists>pre post. s = pre @ w @ post \<and> (pre = [] \<or> \<not> isWordChar (last pre)) \<and>
                 (post = [] \<or> \<not> isWordChar (hd post)))"
proof -
  from assms obtain a as where w: "w = a # as" "isWordChar a" "isWordChar (last w)"
    by (cases w) (auto simp: plainWord_def)
  have b1: "wordBoundary (lastOr None pre) (firstChar (w @ post)) \<longleftrightarrow> (pre = [] \<or> \<not> isWordChar (last pre))"
    for pre post
    using w by (auto simp: wordBoundary_def lastOr_def firstChar_def isWordCharOpt_def)
  have b2: "wordBoundary (lastOr (lastOr None pre) w) (firstChar post) \<longleftrightarrow> (post = [] \<or> \<not> isWordChar (hd post))"
    for pre post
    using w by (cases post) (auto simp: wordBoundary_def lastOr_def firstChar_def isWordCharOpt_def)
  show ?thesis unfolding wordRegexTest_def testFrom_iff b1 b2 ..
qed

lemma wordRegexTest_occurs:
  assumes "plainWord w"
  shows "wordRegexTest (toLowerCase w) (toLowerCase s) \<longleftrightarrow> occursAsWholeWord w s"
proof -
  have "wordRegexTest (toLowerCase w) (toLowerCase s) \<longleftrightarrow>
     (\<exists>pre post. toLowerCase s = pre @ toLowerCase w @ post \<and> (pre = [] \<or> \<not> isWordChar (last pre)) \<and>
                 (post = [] \<or> \<not> isWordChar (hd post)))"
    using plainWord_lower[OF assms] by (rule wordRegexTest_plain)
  also have "\<dots> \<longleftrightarrow> occursAsWholeWord w s"
  proof
    assume "\<exists>pre post. toLowerCase s = pre @ toLowerCase w @ post \<and> (pre = [] \<or> \<not> isWordChar (last pre)) \<and>
                 (post = [] \<or> \<not> isWordChar (hd post))"
    then obtain pre post where h: "map lowerChar s = pre @ toLowerCase w @ post"
        "pre = [] \<or> \<not> isWordChar (last pre)" "post = [] \<or> \<not> isWordChar (hd post)"
      by (auto simp: toLowerCase_def)
    let ?p0 = "take (length pre) s"
    let ?u = "take (length w) (drop (length pre) s)"
    let ?q0 = "drop (length w) (drop (length pre) s)"
    have sp: "s = ?p0 @ ?u @ ?q0" by (simp only: append_take_drop_id)
    have lw: "length (toLowerCase w) = length w" by (simp add: toLowerCase_def)
    have m1: "map lowerChar ?p0 = pre"
      using h(1) by (simp add: take_map[symmetric])
    have m2: "map lowerChar ?u = toLowerCase w"
      using h(1) lw by (simp add: take_map[symmetric] drop_map[symmetric])
    have m3: "map lowerChar ?q0 = post"
      using h(1) lw by (simp add: drop_map[symmetric])
    have e1: "?p0 = [] \<or> \<not> isWordChar (last ?p0)"
    proof (cases "?p0 = []")
      case False
      then have "pre \<noteq> []" using m1 by auto
      moreover have "last pre = lowerChar (last ?p0)" using False m1 last_map[of ?p0 lowerChar] by simp
      ultimately show ?thesis using h(2) by (simp add: isWordChar_lowerChar)
    qed simp
    have e2: "?q0 = [] \<or> \<not> isWordChar (hd ?q0)"
    proof (cases "?q0 = []")
      case False
      then have "post \<noteq> []" using m3 by auto
      moreover have "hd post = lowerChar (hd ?q0)" using False m3 hd_map[of ?q0 lowerChar] by simp
      ultimately show ?thesis using h(3) by (simp add: isWordChar_lowerChar)
    qed simp
    show "occursAsWholeWord w s"
      unfolding occursAsWholeWord_def
      apply (rule exI[of _ ?p0], rule exI[of _ ?u], rule exI[of _ ?q0])
      using sp m2 e1 e2 by (simp add: toLowerCase_def)
  next
    assume "occursAsWholeWord w s"
    then obtain pre u post where h: "s = pre @ u @ post" "toLowerCase u = toLowerCase w"
        "pre = [] \<or> \<not> isWordChar (last pre)" "post = [] \<or> \<not> isWordChar (hd post)"
      unfolding occursAsWholeWord_def by blast
    have "toLowerCase s = toLowerCase pre @ toLowerCase w @ toLowerCase post"
      using h(1,2) by (simp add: toLowerCase_def)
    moreover have "toLowerCase pre = [] \<or> \<not> isWordChar (last (toLowerCase pre))"
      using h(3) by (auto simp: toLowerCase_def last_map isWordChar_lowerChar)
    moreover have "toLowerCase post = [] \<or> \<not> isWordChar (hd (toLowerCase post))"
      using h(4) by (auto simp: toLowerCase_def hd_map isWordChar_lowerChar)
    ultimately show "\<exists>pre post. toLowerCase s = pre @ toLowerCase w @ post \<and> (pre = [] \<or> \<not> isWordChar (last pre)) \<and>
                 (post = [] \<or> \<not> isWordChar (hd post))" by blast
  qed
  finally show ?thesis .
qed

lemma containsAllWords_missing:
  assumes "\<forall>w \<in> set ws. plainWord w"
  shows "snd (containsAllWords sentence ws) = filter (\<lambda>w. \<not> occursAsWholeWord w sentence) ws"
proof -
  have "filter (\<lambda>word. \<not> wordRegexTest (toLowerCase word) (toLowerCase sentence)) ws =
        filter (\<lambda>w. \<not> occursAsWholeWord w sentence) ws"
    using assms by (intro filter_cong) (auto simp: wordRegexTest_occurs)
  then show ?thesis by (simp add: containsAllWords_def Let_def)
qed

text \<open>
  Claim C7. For required words made of \<^verbatim>\<open>\w\<close> characters, the missing list of
  \<^const>\<open>containsAllWords\<close> is, in order, the required words that do not occur in the
  candidate as a whole word ignoring letter case (\<^const>\<open>occursAsWholeWord\<close>: some stretch of
  the candidate equals the word up to case and has no \<^verbatim>\<open>\w\<close> character directly before or
  after it); the check is valid exactly when every required word occurs so; and when just
  one required word is absent, the missing list holds that word and no other.
\<close>

theorem containsAllWords_whole_word:
  assumes "\<forall>w \<in> set ws. plainWord w"
  shows "snd (containsAllWords sentence ws) = filter (\<lambda>w. \<not> occursAsWholeWord w sentence) ws
       \<and> fst (containsAllWords sentence ws) = (\<forall>w \<in> set ws. occursAsWholeWord w sentence)
       \<and> (\<forall>w. w \<in> set ws \<and> \<not> occursAsWholeWord w sentence \<and>
               (\<forall>w' \<in> set ws. w' \<noteq> w \<longrightarrow> occursAsWholeWord w' sentence)
              \<longrightarrow> set (snd (containsAllWords sentence ws)) = {w} \<and>
                  (distinct ws \<longrightarrow> snd (containsAllWords sentence ws) = [w]))"
proof (intro conjI allI impI)
  show m: "snd (containsAllWords sentence ws) = filter (\<lambda>w. \<not> occursAsWholeWord w sentence) ws"
    using assms by (rule containsAllWords_missing)
  have "fst (containsAllWords sentence ws) = (snd (containsAllWords sentence ws) = [])"
    by (simp add: containsAllWords_def Let_def)
  then show "fst (containsAllWords sentence ws) = (\<forall>w \<in> set ws. occursAsWholeWord w sentence)"
    unfolding m by (auto simp: filter_empty_conv)
  fix w
  assume a: "w \<in> set ws \<and> \<not> occursAsWholeWord w sentence \<and>
               (\<forall>w' \<in> set ws. w' \<noteq> w \<longrightarrow> occursAsWholeWord w' sentence)"
  then show s: "set (snd (containsAllWords sentence ws)) = {w}" unfolding m by auto
  assume "distinct ws"
  then have "distinct (snd (containsAllWords sentence ws))" unfolding m by simp
  with s show "snd (containsAllWords sentence ws) = [w]"
  proof (cases "snd (containsAllWords sentence ws)")
    case Nil
    with s show ?thesis by simp
  next
    case (Cons a as)
    with s have "a = w" "set as \<subseteq> {w}" by auto
    moreover from Cons \<open>distinct (snd (containsAllWords sentence ws))\<close> have "a \<notin> set as" by simp
    ultimately have "as = []" by (cases as) auto
    with Cons \<open>a = w\<close> show ?thesis by simp
  qed
qed

theorem containsAllWords_whole_word_witness:
  "plainWord ''apple'' \<and> plainWord ''river''
   \<and> snd (containsAllWords ''The pineapple fell into the River.'' [''apple'', ''river'']) = [''apple'']
   \<and> \<not> occursAsWholeWord ''apple'' ''The pineapple fell into the River.''
   \<and> occursAsWholeWord ''river'' ''The pineapple fell into the River.''"
proof -
  let ?s = "''The pineapple fell into the River.''"
  have p: "plainWord ''apple''" "plainWord ''river''"
    by (simp_all add: plainWord_def isWordChar_def)
  then have h: "\<forall>w \<in> set [''apple'', ''river'']. plainWord w" by simp
  have e: "snd (containsAllWords ?s [''apple'', ''river'']) = [''apple'']"
    by code_simp
  have "filter (\<lambda>w. \<not> occursAsWholeWord w ?s) [''apple'', ''river''] = [''apple'']"
    using containsAllWords_whole_word[OF h, of ?s] e by simp
  then have "\<not> occursAsWholeWord ''apple'' ?s" "occursAsWholeWord ''river'' ?s"
    by (auto split: if_splits)
  with p e show ?thesis by blast
qed

lemma checkCoherence_unavailable_score:
  assumes "oracleUnavailable env sentence"
  shows "score (checkCoherence env sentence) = 7"
  using assms unfolding oracleUnavailable_def checkCoherence_def
  by (auto simp: Let_def split: fetch_outcome.splits reply_body.splits option.splits)

lemma verifyCoherent_shape:
  assumes "answer \<noteq> Other" "length (answerText answer) \<le> MAX_SENTENCE_LENGTH"
  shows "verifyCoherent env ch answer =
    (let sentence = answerText answer;
         cheap = missingWordsError ch sentence @ wordCountError ch sentence @ grammarError sentence
     in if cheap = []
        then Inr (\<lparr>valid = (coherenceError env sentence = []), errors = coherenceError env sentence,
                   coherenceScore = Some (score (checkCoherence env sentence))\<rparr>, [sentence])
        else Inr (\<lparr>valid = False, errors = cheap, coherenceScore = None\<rparr>, []))"
  using assms
  unfolding verifyCoherent_def answerText_def missingWordsError_def wordCountError_def grammarError_def
    coherenceError_def
  by (simp add: Let_def)

text \<open>
  Claim C1. For a challenge whose words are free of regular-expression metacharacters and an
  answer (a string, \<^verbatim>\<open>null\<close> or \<^verbatim>\<open>undefined\<close>) whose trimmed text has at most 10,000
  characters, \<^const>\<open>verifyCoherent\<close> returns a result whose error list is the message of
  the lexical check (if it fails), then the message of the word count check (if it fails),
  then the message of the surface check (if it fails), each decided on its own; the oracle
  is called, once and on the trimmed text, exactly when these three produced no message,
  and only then can the coherence message appear, so that it is alone in the list; and
  \<open>valid\<close> holds exactly when the error list is empty.
\<close>

theorem verifyCoherent_accumulates:
  assumes "answer \<noteq> Other"
      and "length (answerText answer) \<le> MAX_SENTENCE_LENGTH"
      and "\<forall>w \<in> set (words ch). regexLiteral (toLowerCase w)"
  shows "\<exists>r calls cheap coh.
           verifyCoherent env ch answer = Inr (r, calls)
         \<and> cheap = missingWordsError ch (answerText answer) @
                   wordCountError ch (answerText answer) @
                   grammarError (answerText answer)
         \<and> coh = (if cheap = [] then coherenceError env (answerText answer) else [])
         \<and> errors r = cheap @ coh
         \<and> calls = (if cheap = [] then [answerText answer] else [])
         \<and> (coh \<noteq> [] \<longrightarrow> errors r = coh)
         \<and> (valid r \<longleftrightarrow> errors r = [])"
  using verifyCoherent_shape[OF assms(1,2), of env ch]
  by (auto simp: Let_def)

theorem verifyCoherent_accumulates_witness:
  "Str ''the apple river'' \<noteq> Other
   \<and> length (answerText (Str ''the apple river'')) \<le> MAX_SENTENCE_LENGTH
   \<and> regexLiteral (toLowerCase ''apple'') \<and> regexLiteral (toLowerCase ''river'')
   \<and> regexLiteral (toLowerCase ''purple'')
   \<and> (\<exists>r. verifyCoherent \<lparr>apiKey = Some ''sk-test'', fetch = (\<lambda>s. Response True (BodyContent (Some ''3'')))\<rparr>
             \<lparr>words = [''apple'', ''river'', ''purple''], wordCount = 15, timeoutMs = 10000\<rparr>
             (Str ''the apple river'') = Inr (r, [])
          \<and> errors r = [''Missing words: purple'', ''Word count: expected 15, got 3'',
                          ''Sentence should start with a capital letter'']
          \<and> valid r = False)"
proof -
  let ?env = "\<lparr>apiKey = Some ''sk-test'', fetch = (\<lambda>s. Response True (BodyContent (Some ''3'')))\<rparr>"
  let ?ch = "\<lparr>words = [''apple'', ''river'', ''purple''], wordCount = 15, timeoutMs = 10000\<rparr>"
  let ?a = "Str ''the apple river''"
  have h1: "?a \<noteq> Other" by simp
  have t: "answerText ?a = ''the apple river''" unfolding answerText_def by code_simp
  have h2: "length (answerText ?a) \<le> MAX_SENTENCE_LENGTH" unfolding t by (simp add: MAX_SENTENCE_LENGTH_def)
  have lit: "regexLiteral (toLowerCase ''apple'')" "regexLiteral (toLowerCase ''river'')"
     "regexLiteral (toLowerCase ''purple'')"
    by code_simp+
  then have h3: "\<forall>w \<in> set (words ?ch). regexLiteral (toLowerCase w)" by simp
  have m: "missingWordsError ?ch ''the apple river'' = [''Missing words: purple'']"
    unfolding missingWordsError_def by code_simp
  have w: "wordCountError ?ch ''the apple river'' = [''Word count: expected 15, got 3'']"
    unfolding wordCountError_def by code_simp
  have g: "grammarError ''the apple river'' = [''Sentence should start with a capital letter'']"
    unfolding grammarError_def by code_simp
  from verifyCoherent_accumulates[OF h1 h2 h3, of ?env] obtain r calls cheap coh where
    r: "verifyCoherent ?env ?ch ?a = Inr (r, calls)"
       "cheap = missingWordsError ?ch (answerText ?a) @ wordCountError ?ch (answerText ?a) @
                 grammarError (answerText ?a)"
       "coh = (if cheap = [] then coherenceError ?env (answerText ?a) else [])"
       "errors r = cheap @ coh"
       "calls = (if cheap = [] then [answerText ?a] else [])"
       "valid r \<longleftrightarrow> errors r = []"
    by blast
  have ch: "cheap = [''Missing words: purple'', ''Word count: expected 15, got 3'',
                          ''Sentence should start with a capital letter'']"
    using r(2) unfolding t m w g by simp
  have "calls = []" using r(5) ch by simp
  moreover have "errors r = [''Missing words: purple'', ''Word count: expected 15, got 3'',
                          ''Sentence should start with a capital letter'']"
    using r(3,4) ch by simp
  moreover have "valid r = False" using r(6) calculation(2) by simp
  ultimately show ?thesis using r(1) h1 h2 lit by blast
qed

text \<open>
  Claim C5. When the oracle is unavailable for a sentence (no API key or an empty one, the
  request throws, the response is not ok, reading the body throws, or the reply's leading
  integer is absent or outside \<open>1..10\<close>), \<^const>\<open>checkCoherence\<close> returns the score 7, and
  \<^const>\<open>verifyCoherent\<close> accepts every answer with that trimmed text that passes the
  lexical, word count and surface checks: valid, no errors, score 7.
\<close>

theorem checkCoherence_fallback_passes:
  assumes "oracleUnavailable env sentence"
  shows "score (checkCoherence env sentence) = 7 \<and>
         (\<forall>ch answer.
            answer \<noteq> Other \<and> answerText answer = sentence \<and> length sentence \<le> MAX_SENTENCE_LENGTH \<and>
            checksPass (ch :: CoherentChallenge) sentence
            \<longrightarrow> verifyCoherent env ch answer =
                  Inr (\<lparr>valid = True, errors = [], coherenceScore = Some 7\<rparr>, [sentence]))"
proof -
  have s7: "score (checkCoherence env sentence) = 7" using assms by (rule checkCoherence_unavailable_score)
  show ?thesis
  proof (intro conjI allI impI)
    show "score (checkCoherence env sentence) = 7" by (rule s7)
  next
    fix ch :: CoherentChallenge and answer
    assume a: "answer \<noteq> Other \<and> answerText answer = sentence \<and> length sentence \<le> MAX_SENTENCE_LENGTH \<and>
            checksPass ch sentence"
    then have "verifyCoherent env ch answer =
       (let sentence = answerText answer;
         cheap = missingWordsError ch sentence @ wordCountError ch sentence @ grammarError sentence
     in if cheap = []
        then Inr (\<lparr>valid = (coherenceError env sentence = []), errors = coherenceError env sentence,
                   coherenceScore = Some (score (checkCoherence env sentence))\<rparr>, [sentence])
        else Inr (\<lparr>valid = False, errors = cheap, coherenceScore = None\<rparr>, []))"
      by (intro verifyCoherent_shape) auto
    with a s7 show "verifyCoherent env ch answer =
                  Inr (\<lparr>valid = True, errors = [], coherenceScore = Some 7\<rparr>, [sentence])"
      by (simp add: Let_def checksPass_def missingWordsError_def wordCountError_def grammarError_def coherenceError_def)
  qed
qed

theorem checkCoherence_fallback_passes_witness:
  "oracleUnavailable \<lparr>apiKey = None, fetch = (\<lambda>s. FetchThrows)\<rparr>
      ''Every autumn the purple apple trees dance gently beside the quiet river near our home.''
   \<and> score (checkCoherence \<lparr>apiKey = None, fetch = (\<lambda>s. FetchThrows)\<rparr>
      ''Every autumn the purple apple trees dance gently beside the quiet river near our home.'') = 7
   \<and> verifyCoherent \<lparr>apiKey = None, fetch = (\<lambda>s. FetchThrows)\<rparr>
        \<lparr>words = [''apple'', ''river'', ''purple'', ''dance'', ''autumn''], wordCount = 15, timeoutMs = 10000\<rparr>
        (Str '' Every autumn the purple apple trees dance gently beside the quiet river near our home. '')
      = Inr (\<lparr>valid = True, errors = [], coherenceScore = Some 7\<rparr>,
             [''Every autumn the purple apple trees dance gently beside the quiet river near our home.''])"
proof -
  let ?env = "\<lparr>apiKey = None, fetch = (\<lambda>s. FetchThrows)\<rparr>"
  let ?s = "''Every autumn the purple apple trees dance gently beside the quiet river near our home.''"
  let ?ch = "\<lparr>words = [''apple'', ''river'', ''purple'', ''dance'', ''autumn''], wordCount = 15, timeoutMs = 10000\<rparr>"
  let ?a = "Str '' Every autumn the purple apple trees dance gently beside the quiet river near our home. ''"
  have u: "oracleUnavailable ?env ?s" by (simp add: oracleUnavailable_def)
  have t: "answerText ?a = ?s" unfolding answerText_def by code_simp
  have l: "length ?s \<le> MAX_SENTENCE_LENGTH" by (simp add: MAX_SENTENCE_LENGTH_def)
  have c: "checksPass ?ch ?s" unfolding checksPass_def by code_simp
  have "?a \<noteq> Other \<and> answerText ?a = ?s \<and> length ?s \<le> MAX_SENTENCE_LENGTH \<and> checksPass ?ch ?s"
    using t l c by blast
  with checkCoherence_fallback_passes[OF u] u show ?thesis by blast
qed

section \<open>Properties of the challenge generator\<close>

lemma length_pickRandom: "n \<le> length arr \<Longrightarrow> length (pickRandom arr rb n) = n"
  by (simp add: pickRandom_def Let_def)

lemma generateCoherentChallenge_shape:
  assumes "\<forall>xs. mset (shuffleOrder e xs) = mset xs"
  shows "length (words (generateCoherentChallenge e)) = 5 \<and>
         15 \<le> wordCount (generateCoherentChallenge e) \<and> wordCount (generateCoherentChallenge e) \<le> 25"
proof -
  let ?picked = "pickRandom NOUNS (nounBytes e) 2 @ pickRandom ADJECTIVES (adjectiveBytes e) 1 @
                 pickRandom VERBS (verbBytes e) 1 @ pickRandom TIME_WORDS (timeBytes e) 1"
  have "length ?picked = 5"
    by (simp add: length_pickRandom NOUNS_def ADJECTIVES_def VERBS_def TIME_WORDS_def)
  moreover have "length (shuffleOrder e ?picked) = length ?picked"
    using assms by (metis size_mset)
  ultimately have "length (words (generateCoherentChallenge e)) = 5"
    by (simp add: generateCoherentChallenge_def)
  moreover have "unat (randomByte e) mod 11 \<le> 10" by simp
  then have "15 \<le> wordCount (generateCoherentChallenge e) \<and> wordCount (generateCoherentChallenge e) \<le> 25"
    by (simp add: generateCoherentChallenge_def)
  ultimately show ?thesis by blast
qed

text \<open>
  Every word of a generated challenge comes from the pools, and every pool word is made of
  \<^verbatim>\<open>\w\<close> characters: the conditions on the required words in the properties of the
  verification pipeline hold for every challenge the generator returns.
\<close>

lemma wordChar_not_meta:
  "isWordChar d \<Longrightarrow> (of_char d :: nat) \<notin> {92, 94, 36, 46, 42, 43, 63, 40, 41, 91, 93, 123, 125, 124}"
  by (auto simp: isWordChar_def Let_def)

lemma plainWord_regexLiteral: "plainWord w \<Longrightarrow> regexLiteral (toLowerCase w)"
proof -
  assume p: "plainWord w"
  have "(of_char (lowerChar c) :: nat) \<notin> {92, 94, 36, 46, 42, 43, 63, 40, 41, 91, 93, 123, 125, 124}"
    if "c \<in> set w" for c
  proof -
    have "isWordChar (lowerChar c)" using p that by (simp add: plainWord_def isWordChar_lowerChar)
    then show ?thesis by (rule wordChar_not_meta)
  qed
  then show ?thesis unfolding regexLiteral_def toLowerCase_def by auto
qed

lemma set_pickRandom: "set (pickRandom arr rb n) \<subseteq> set arr"
proof -
  have "set (pickRandom arr rb n) \<subseteq> fst ` set (map (\<lambda>i. (arr ! i, rb i)) [0..<length arr])"
    unfolding pickRandom_def Let_def by (auto dest!: in_set_takeD)
  also have "\<dots> \<subseteq> set arr" by auto
  finally show ?thesis .
qed

lemma pool_words_plain: "\<forall>w \<in> set (NOUNS @ ADJECTIVES @ VERBS @ TIME_WORDS). plainWord w"
  unfolding NOUNS_def ADJECTIVES_def VERBS_def TIME_WORDS_def plainWord_def
  by code_simp

lemma generated_words_plain:
  assumes "\<forall>xs. mset (shuffleOrder e xs) = mset xs"
  shows "\<forall>w \<in> set (words (generateCoherentChallenge e)). plainWord w \<and> regexLiteral (toLowerCase w)"
proof
  fix w assume "w \<in> set (words (generateCoherentChallenge e))"
  then have "w \<in> set (pickRandom NOUNS (nounBytes e) 2 @ pickRandom ADJECTIVES (adjectiveBytes e) 1 @
                 pickRandom VERBS (verbBytes e) 1 @ pickRandom TIME_WORDS (timeBytes e) 1)"
    using assms by (metis generateCoherentChallenge_def CoherentChallenge.select_convs(1) set_mset_mset)
  then have "w \<in> set (NOUNS @ ADJECTIVES @ VERBS @ TIME_WORDS)"
    by (auto dest: subsetD[OF set_pickRandom])
  then have "plainWord w" using pool_words_plain by blast
  then show "plainWord w \<and> regexLiteral (toLowerCase w)" by (simp add: plainWord_regexLiteral)
qed

text \<open>
  Claim C2, at a draw where the code departs from it. \<^const>\<open>NOUNS\<close> and \<^const>\<open>VERBS\<close>
  both hold the word whisper. When the noun draw ranks whisper among its first two and the
  verb draw ranks it first, the challenge lists whisper twice: five entries, a count in
  range, but not pairwise distinct.
\<close>

theorem generateCoherentChallenge_repeats_whisper:
  "generateCoherentChallenge
     \<lparr>nounBytes = (\<lambda>i. if i = 12 then 0 else 1), adjectiveBytes = (\<lambda>i. 0), verbBytes = (\<lambda>i. 0),
      timeBytes = (\<lambda>i. 0), shuffleOrder = (\<lambda>xs. xs), randomByte = 0\<rparr>
   = \<lparr>words = [''whisper'', ''apple'', ''purple'', ''whisper'', ''yesterday''], wordCount = 15,
      timeoutMs = 10000\<rparr>
   \<and> \<not> distinct (words (generateCoherentChallenge
     \<lparr>nounBytes = (\<lambda>i. if i = 12 then 0 else 1), adjectiveBytes = (\<lambda>i. 0), verbBytes = (\<lambda>i. 0),
      timeBytes = (\<lambda>i. 0), shuffleOrder = (\<lambda>xs. xs), randomByte = 0\<rparr>))"
proof -
  have n: "pickRandom NOUNS (\<lambda>i. if i = 12 then 0 else 1) 2 = [''whisper'', ''apple'']"
    unfolding pickRandom_def NOUNS_def by code_simp
  have a: "pickRandom ADJECTIVES (\<lambda>i. 0) 1 = [''purple'']"
    unfolding pickRandom_def ADJECTIVES_def by code_simp
  have v: "pickRandom VERBS (\<lambda>i. 0) 1 = [''whisper'']"
    unfolding pickRandom_def VERBS_def by code_simp
  have t: "pickRandom TIME_WORDS (\<lambda>i. 0) 1 = [''yesterday'']"
    unfolding pickRandom_def TIME_WORDS_def by code_simp
  show ?thesis
    unfolding generateCoherentChallenge_def challenge_entropy.simps n a v t by simp
qed

section \<open>Properties of the session store\<close>

lemma delete_filter_distinct:
  assumes "distinct (map fst acc0)" "p \<in> set acc0"
  shows "AList.delete (fst p) (filter Q acc0) = filter (\<lambda>q. Q q \<and> q \<noteq> p) acc0"
proof -
  have h: "\<And>q. q \<in> set acc0 \<Longrightarrow> (fst p \<noteq> fst q) = (q \<noteq> p)"
    using assms by (metis eq_key_imp_eq_value prod.collapse)
  have "AList.delete (fst p) (filter Q acc0) = filter (\<lambda>q. Q q \<and> fst p \<noteq> fst q) acc0"
    unfolding AList.delete_eq by (simp add: case_prod_unfold conj_commute)
  also have "\<dots> = filter (\<lambda>q. Q q \<and> q \<noteq> p) acc0"
    by (rule filter_cong) (use h in auto)
  finally show ?thesis .
qed

lemma fold_delete_filter:
  assumes "distinct (map fst acc0)"
  shows "set ys \<subseteq> set acc0 \<Longrightarrow>
         fold (\<lambda>p acc. if P p then AList.delete (fst p) acc else acc) ys (filter Q acc0) =
         filter (\<lambda>q. Q q \<and> \<not> (q \<in> set ys \<and> P q)) acc0"
proof (induction ys arbitrary: Q)
  case Nil
  then show ?case by simp
next
  case (Cons y ys)
  have y: "y \<in> set acc0" and ys: "set ys \<subseteq> set acc0" using Cons.prems by auto
  show ?case
  proof (cases "P y")
    case True
    have "fold (\<lambda>p acc. if P p then AList.delete (fst p) acc else acc) (y # ys) (filter Q acc0) =
          fold (\<lambda>p acc. if P p then AList.delete (fst p) acc else acc) ys (filter (\<lambda>q. Q q \<and> q \<noteq> y) acc0)"
      using True delete_filter_distinct[OF assms y, of Q] by simp
    also have "\<dots> = filter (\<lambda>q. (Q q \<and> q \<noteq> y) \<and> \<not> (q \<in> set ys \<and> P q)) acc0"
      by (rule Cons.IH[OF ys])
    also have "\<dots> = filter (\<lambda>q. Q q \<and> \<not> (q \<in> set (y # ys) \<and> P q)) acc0"
      using True by (intro filter_cong) auto
    finally show ?thesis .
  next
    case False
    have "fold (\<lambda>p acc. if P p then AList.delete (fst p) acc else acc) (y # ys) (filter Q acc0) =
          fold (\<lambda>p acc. if P p then AList.delete (fst p) acc else acc) ys (filter Q acc0)"
      using False by simp
    also have "\<dots> = filter (\<lambda>q. Q q \<and> \<not> (q \<in> set ys \<and> P q)) acc0"
      by (rule Cons.IH[OF ys])
    also have "\<dots> = filter (\<lambda>q. Q q \<and> \<not> (q \<in> set (y # ys) \<and> P q)) acc0"
      using False by (intro filter_cong) auto
    finally show ?thesis .
  qed
qed

lemma expire_loop:
  assumes "distinct (map fst xs)"
  shows "fold (\<lambda>(i, session) acc.
                 if now - sessionCreatedAt session > SESSION_MAX_AGE_MS
                 then AList.delete i acc else acc) xs xs = filter (notExpired now) xs"
proof -
  have f: "(\<lambda>(i, session) acc.
                 if now - sessionCreatedAt session > SESSION_MAX_AGE_MS
                 then AList.delete i acc else acc) =
        (\<lambda>p acc. if \<not> notExpired now p then AList.delete (fst p) acc else acc)"
    by (auto simp: fun_eq_iff notExpired_def)
  have "fold (\<lambda>p acc. if \<not> notExpired now p then AList.delete (fst p) acc else acc) xs (filter (\<lambda>q. True) xs) =
        filter (\<lambda>q. True \<and> \<not> (q \<in> set xs \<and> \<not> notExpired now q)) xs"
    by (rule fold_delete_filter[OF assms]) simp
  also have "\<dots> = filter (notExpired now) xs"
    by (intro filter_cong) auto
  finally show ?thesis unfolding f by simp
qed

lemma evict_loop:
  assumes d: "distinct (map fst xs)" and m: "mset srt = mset xs" and k: "k \<le> length xs"
  shows "fold (\<lambda>i acc. AList.delete (fst (srt ! i)) acc) [0..<k] xs =
         filter (\<lambda>q. q \<notin> set (take k srt)) xs"
proof -
  have len: "length srt = length xs" using m by (metis size_mset)
  have tk: "map (\<lambda>i. srt ! i) [0..<k] = take k srt"
    using k len by (intro nth_equalityI) auto
  have sub: "set (take k srt) \<subseteq> set xs"
    using m by (metis set_mset_mset set_take_subset)
  have "fold (\<lambda>i acc. AList.delete (fst (srt ! i)) acc) [0..<k] xs =
        fold (\<lambda>p acc. if True then AList.delete (fst p) acc else acc) (map (\<lambda>i. srt ! i) [0..<k]) (filter (\<lambda>q. True) xs)"
    by (simp add: fold_map comp_def)
  also have "\<dots> = filter (\<lambda>q. True \<and> \<not> (q \<in> set (take k srt) \<and> True)) xs"
    unfolding tk by (rule fold_delete_filter[OF d sub])
  finally show ?thesis by simp
qed

lemma length_evicted:
  assumes d: "distinct (map fst xs)" and m: "mset srt = mset xs" and k: "k \<le> length xs"
  shows "length (filter (\<lambda>q. q \<notin> set (take k srt)) xs) = length xs - k"
proof -
  have dx: "distinct xs" using d by (auto simp: distinct_map)
  have ds: "distinct srt" using dx m by (metis mset_eq_imp_distinct_iff)
  have len: "length srt = length xs" using m by (metis size_mset)
  have sub: "set (take k srt) \<subseteq> set xs"
    using m by (metis set_mset_mset set_take_subset)
  have ck: "card (set (take k srt)) = k"
    using ds k len by (simp add: distinct_card)
  have "distinct (filter (\<lambda>q. q \<notin> set (take k srt)) xs)" using dx by simp
  then have "length (filter (\<lambda>q. q \<notin> set (take k srt)) xs) = card (set (filter (\<lambda>q. q \<notin> set (take k srt)) xs))"
    by (rule distinct_card[symmetric])
  also have "set (filter (\<lambda>q. q \<notin> set (take k srt)) xs) = set xs - set (take k srt)" by auto
  also have "card (set xs - set (take k srt)) = card (set xs) - card (set (take k srt))"
    using sub by (simp add: card_Diff_subset)
  finally show ?thesis using ck dx by (simp add: distinct_card)
qed

lemma sorted_take_drop_le:
  assumes "sorted (map f srt)" "r \<in> set (take k srt)" "p \<in> set (drop k srt)"
  shows "f r \<le> f p"
proof -
  have "sorted (map f (take k srt) @ map f (drop k srt))"
    using assms(1) by (simp add: map_append[symmetric] del: map_append)
  then show ?thesis using assms(2,3) by (auto simp: sorted_append)
qed

lemma cleanupOldSessions_char:
  assumes d: "distinct (map fst xs)"
  shows "cleanupOldSessions now xs =
           (let fresh = filter (notExpired now) xs;
                srt = sort_key (\<lambda>(i, session). sessionCreatedAt session) fresh
            in if length fresh > MAX_SESSIONS
               then filter (\<lambda>q. q \<notin> set (take (length fresh - MAX_SESSIONS) srt)) fresh
               else fresh)"
proof -
  let ?fresh = "filter (notExpired now) xs"
  let ?srt = "sort_key (\<lambda>(i, session). sessionCreatedAt session) ?fresh"
  have df: "distinct (map fst ?fresh)" using d by (simp add: distinct_map_filter)
  have ev: "fold (\<lambda>i acc. AList.delete (fst (?srt ! i)) acc) [0..<length ?fresh - MAX_SESSIONS] ?fresh =
        filter (\<lambda>q. q \<notin> set (take (length ?fresh - MAX_SESSIONS) ?srt)) ?fresh"
    by (rule evict_loop[OF df]) simp_all
  show ?thesis
    unfolding cleanupOldSessions_def expire_loop[OF d] Let_def ev ..
qed

lemma cleanupOldSessions_spec:
  assumes d: "distinct (map fst xs)"
  shows "(length (filter (notExpired t) xs) \<le> MAX_SESSIONS \<longrightarrow>
            cleanupOldSessions t xs = filter (notExpired t) xs)
       \<and> (length (filter (notExpired t) xs) > MAX_SESSIONS \<longrightarrow>
            length (cleanupOldSessions t xs) = MAX_SESSIONS
          \<and> cleanupOldSessions t xs =
              filter (\<lambda>q. q \<in> set (cleanupOldSessions t xs)) (filter (notExpired t) xs)
          \<and> (\<forall>r \<in> set (filter (notExpired t) xs) - set (cleanupOldSessions t xs).
               \<forall>p \<in> set (cleanupOldSessions t xs).
                 sessionCreatedAt (snd r) \<le> sessionCreatedAt (snd p)))"
proof (intro conjI impI)
  let ?fresh = "filter (notExpired t) xs"
  let ?key = "\<lambda>(i :: string, session). sessionCreatedAt session"
  let ?srt = "sort_key ?key ?fresh"
  let ?k = "length ?fresh - MAX_SESSIONS"
  let ?res = "cleanupOldSessions t xs"
  have df: "distinct (map fst ?fresh)" using d by (simp add: distinct_map_filter)
  show "?res = ?fresh" if "length ?fresh \<le> MAX_SESSIONS"
    using that by (simp add: cleanupOldSessions_char[OF d] Let_def)
  assume big: "length ?fresh > MAX_SESSIONS"
  have res: "?res = filter (\<lambda>q. q \<notin> set (take ?k ?srt)) ?fresh"
    using big by (simp add: cleanupOldSessions_char[OF d] Let_def)
  have "length ?res = length ?fresh - ?k"
    unfolding res by (rule length_evicted[OF df]) simp_all
  then show "length ?res = MAX_SESSIONS" using big by simp
  have "filter (\<lambda>q. q \<in> set ?res) ?fresh = filter (\<lambda>q. q \<notin> set (take ?k ?srt)) ?fresh"
    by (rule filter_cong) (auto simp: res)
  then show "?res = filter (\<lambda>q. q \<in> set ?res) ?fresh" using res by simp
  show "\<forall>r \<in> set ?fresh - set ?res. \<forall>p \<in> set ?res.
                 sessionCreatedAt (snd r) \<le> sessionCreatedAt (snd p)"
  proof (intro ballI)
    fix r p
    assume r: "r \<in> set ?fresh - set ?res" and p: "p \<in> set ?res"
    have st: "set ?srt = set (take ?k ?srt) \<union> set (drop ?k ?srt)"
      by (metis append_take_drop_id set_append)
    have rt: "r \<in> set (take ?k ?srt)" using r unfolding res by auto
    have "p \<in> set ?srt" "p \<notin> set (take ?k ?srt)" using p unfolding res by auto
    then have pd: "p \<in> set (drop ?k ?srt)" using st by blast
    have "sorted (map ?key ?srt)" by (rule sorted_sort_key)
    from sorted_take_drop_le[OF this rt pd]
    show "sessionCreatedAt (snd r) \<le> sessionCreatedAt (snd p)"
      by (simp add: case_prod_unfold)
  qed
qed

lemma cleanupOldSessions_bound:
  assumes d: "distinct (map fst xs)"
  shows "length (cleanupOldSessions t xs) \<le> MAX_SESSIONS \<and> distinct (map fst (cleanupOldSessions t xs))"
proof -
  have "length (cleanupOldSessions t xs) \<le> MAX_SESSIONS"
    using cleanupOldSessions_spec[OF d, of t] by (cases "length (filter (notExpired t) xs) \<le> MAX_SESSIONS") auto
  moreover have "distinct (map fst (cleanupOldSessions t xs))"
    using d by (simp add: cleanupOldSessions_char[OF d] Let_def distinct_map_filter)
  ultimately show ?thesis by blast
qed

text \<open>
  Claim C10. Starting from a session map (distinct keys), the store that
  \<^const>\<open>createSession\<close> leaves holds at most 10,000 sessions and is again a map: it is the
  result of \<^const>\<open>cleanupOldSessions\<close> on the store with the new session set. That cleanup
  first drops the sessions older than the maximum age; if at most 10,000 remain it stops
  there; otherwise exactly 10,000 remain, in their order, and every session evicted in
  this second step was created no later than every session kept.
\<close>

theorem createSession_store_bounded:
  assumes d: "distinct (map fst store)"
  shows "length (snd (createSession clientIp timeout e now tCleanup store)) \<le> 10000
       \<and> distinct (map fst (snd (createSession clientIp timeout e now tCleanup store)))
       \<and> snd (createSession clientIp timeout e now tCleanup store) =
           cleanupOldSessions tCleanup
             (AList.update (ses_id (fst (createSession clientIp timeout e now tCleanup store)))
                (fst (createSession clientIp timeout e now tCleanup store)) store)
       \<and> (\<forall>xs t. distinct (map fst xs) \<longrightarrow>
            (length (filter (notExpired t) xs) \<le> 10000 \<longrightarrow>
               cleanupOldSessions t xs = filter (notExpired t) xs)
          \<and> (length (filter (notExpired t) xs) > 10000 \<longrightarrow>
               length (cleanupOldSessions t xs) = 10000
             \<and> cleanupOldSessions t xs =
                 filter (\<lambda>q. q \<in> set (cleanupOldSessions t xs)) (filter (notExpired t) xs)
             \<and> (\<forall>r \<in> set (filter (notExpired t) xs) - set (cleanupOldSessions t xs).
                  \<forall>p \<in> set (cleanupOldSessions t xs).
                    sessionCreatedAt (snd r) \<le> sessionCreatedAt (snd p))))"
proof -
  let ?cs = "createSession clientIp timeout e now tCleanup store"
  have eq: "snd ?cs = cleanupOldSessions tCleanup (AList.update (ses_id (fst ?cs)) (fst ?cs) store)"
    by (simp add: createSession_def Let_def)
  have du: "distinct (map fst (AList.update (ses_id (fst ?cs)) (fst ?cs) store))"
    using d by (rule distinct_update)
  have b: "length (snd ?cs) \<le> MAX_SESSIONS \<and> distinct (map fst (snd ?cs))"
    unfolding eq by (rule cleanupOldSessions_bound[OF du])
  have sp: "\<forall>xs t. distinct (map fst xs) \<longrightarrow>
            (length (filter (notExpired t) xs) \<le> MAX_SESSIONS \<longrightarrow>
               cleanupOldSessions t xs = filter (notExpired t) xs)
          \<and> (length (filter (notExpired t) xs) > MAX_SESSIONS \<longrightarrow>
               length (cleanupOldSessions t xs) = MAX_SESSIONS
             \<and> cleanupOldSessions t xs =
                 filter (\<lambda>q. q \<in> set (cleanupOldSessions t xs)) (filter (notExpired t) xs)
             \<and> (\<forall>r \<in> set (filter (notExpired t) xs) - set (cleanupOldSessions t xs).
                  \<forall>p \<in> set (cleanupOldSessions t xs).
                    sessionCreatedAt (snd r) \<le> sessionCreatedAt (snd p)))"
    using cleanupOldSessions_spec by blast
  show ?thesis using b eq sp unfolding MAX_SESSIONS_def by blast
qed

theorem createSession_store_bounded_witness:
  "distinct (map fst [(''ses_old'', oldSession)])
   \<and> length (snd (createSession ''10.0.0.2'' 9000 zeroEntropy 400000 400000
                      [(''ses_old'', oldSession)])) \<le> 10000
   \<and> map fst (snd (createSession ''10.0.0.2'' 9000 zeroEntropy 400000 400000
                      [(''ses_old'', oldSession)])) = [''ses_AAAAAAAAAAAAAAAAAAAAAAAA'']"
proof -
  have d: "distinct (map fst [(''ses_old'', oldSession)])" by simp
  have e: "map fst (snd (createSession ''10.0.0.2'' 9000 zeroEntropy 400000 400000
                      [(''ses_old'', oldSession)])) = [''ses_AAAAAAAAAAAAAAAAAAAAAAAA'']"
    unfolding zeroEntropy_def oldSession_def by code_simp
  from createSession_store_bounded[OF d, of "''10.0.0.2''" 9000 zeroEntropy 400000 400000]
  have "length (snd (createSession ''10.0.0.2'' 9000 zeroEntropy 400000 400000
                      [(''ses_old'', oldSession)])) \<le> 10000" by blast
  with d e show ?thesis by blast
qed

section \<open>Properties of the token store\<close>

lemma generateTokenString_prefix:
  "take 5 (generateTokenString bytes) = ''rcap_'' \<and> generateTokenString bytes \<noteq> []"
  by (simp add: generateTokenString_def Let_def)

lemma validateToken_present:
  assumes "store t = Some td" "take 5 t = ''rcap_''" "t \<noteq> []" "now \<le> tok_expiresAt td"
  shows "validateToken t now store =
           (\<lparr>vr_valid = True, vr_challengeId = Some (tok_challengeId td),
             vr_expiresAt = Some (tok_expiresAt td), vr_error = None\<rparr>, store(t := None))"
  using assms by (simp add: validateToken_def)

lemma validateToken_absent:
  assumes "store t = None" "take 5 t = ''rcap_''" "t \<noteq> []"
  shows "validateToken t now store = (notFound, store)"
  using assms by (simp add: validateToken_def notFound_def)

lemma token_step_keeps_live:
  assumes "store t = Some td" "\<not> issues t op" "\<not> redeems t op" "fst op \<le> tok_expiresAt td"
  shows "token_step op store t = Some td"
proof (cases op)
  case (Pair now o')
  show ?thesis
  proof (cases o')
    case (OpCreate config cid clientIp bytes)
    then show ?thesis using assms Pair by (simp add: createToken_def Let_def)
  next
    case (OpValidate t')
    then show ?thesis using assms Pair
      by (auto simp: validateToken_def split: option.splits)
  next
    case (OpIsValid t')
    then show ?thesis using assms Pair
      by (auto simp: isTokenValid_def split: option.splits)
  next
    case (OpGetInfo t')
    then show ?thesis using assms Pair
      by (auto simp: getTokenInfo_def split: option.splits)
  next
    case OpCleanup
    then show ?thesis using assms Pair by (simp add: cleanupTokens_def)
  qed
qed

lemma token_step_keeps_absent:
  assumes "store t = None" "\<not> issues t op"
  shows "token_step op store t = None"
proof (cases op)
  case (Pair now o')
  show ?thesis
  proof (cases o')
    case (OpCreate config cid clientIp bytes)
    then show ?thesis using assms Pair by (simp add: createToken_def Let_def)
  next
    case (OpValidate t')
    then show ?thesis using assms Pair
      by (auto simp: validateToken_def split: option.splits)
  next
    case (OpIsValid t')
    then show ?thesis using assms Pair
      by (auto simp: isTokenValid_def split: option.splits)
  next
    case (OpGetInfo t')
    then show ?thesis using assms Pair
      by (auto simp: getTokenInfo_def split: option.splits)
  next
    case OpCleanup
    then show ?thesis using assms Pair by (simp add: cleanupTokens_def)
  qed
qed

lemma token_run_keeps_live:
  "store t = Some td \<Longrightarrow> \<forall>op \<in> set ops. \<not> issues t op \<and> \<not> redeems t op \<and> fst op \<le> tok_expiresAt td
     \<Longrightarrow> token_run ops store t = Some td"
proof (induction ops arbitrary: store)
  case Nil
  then show ?case by (simp add: token_run_def)
next
  case (Cons op ops)
  have "token_step op store t = Some td"
    using Cons.prems by (intro token_step_keeps_live) auto
  then have "token_run ops (token_step op store) t = Some td"
    using Cons.prems by (intro Cons.IH) auto
  then show ?case by (simp add: token_run_def)
qed

lemma token_run_keeps_absent:
  "store t = None \<Longrightarrow> \<forall>op \<in> set ops. \<not> issues t op \<Longrightarrow> token_run ops store t = None"
proof (induction ops arbitrary: store)
  case Nil
  then show ?case by (simp add: token_run_def)
next
  case (Cons op ops)
  have "token_step op store t = None"
    using Cons.prems by (intro token_step_keeps_absent) auto
  then have "token_run ops (token_step op store) t = None"
    using Cons.prems by (intro Cons.IH) auto
  then show ?case by (simp add: token_run_def)
qed

text \<open>
  Claim C3. A token issued by \<^const>\<open>createToken\<close> is redeemed exactly once. Let any
  operations of the module run after the issue that neither redeem this token string nor
  issue it again, none later than the clock value of the first \<^const>\<open>validateToken\<close> call
  on it, and let that call come no later than the token's expiry: the call returns valid
  with the token's challenge and expiry and leaves the store without the token. After any
  further operations that do not issue the same string again, every \<^const>\<open>validateToken\<close>
  call on it, at any time, returns the not-found response and changes nothing.
\<close>

theorem validateToken_exactly_once:
  assumes created: "createToken config cid clientIp t0 bytes store0 = (td, store1)"
      and before: "\<forall>op \<in> set pre. \<not> issues (token td) op \<and> \<not> redeems (token td) op \<and> fst op \<le> t1"
      and live: "t1 \<le> tok_expiresAt td"
      and after: "\<forall>op \<in> set post. \<not> issues (token td) op"
  shows "\<exists>store2.
           validateToken (token td) t1 (token_run pre store1) =
             (\<lparr>vr_valid = True, vr_challengeId = Some cid,
               vr_expiresAt = Some (t0 + tokenExpiryMs config), vr_error = None\<rparr>, store2)
         \<and> store2 (token td) = None
         \<and> (\<forall>t2. validateToken (token td) t2 (token_run post store2) =
                    (notFound, token_run post store2))"
proof -
  have td: "td = \<lparr>token = generateTokenString bytes, tok_challengeId = cid, issuedAt = t0,
                   tok_expiresAt = t0 + tokenExpiryMs config, tok_clientIp = clientIp\<rparr>"
    and s1: "store1 = store0(token td \<mapsto> td)"
    using created by (auto simp: createToken_def Let_def)
  have pfx: "take 5 (token td) = ''rcap_''" "token td \<noteq> []"
    using generateTokenString_prefix[of bytes] td by simp_all
  have "store1 (token td) = Some td" using s1 by simp
  then have l: "token_run pre store1 (token td) = Some td"
    using before live by (intro token_run_keeps_live) auto
  let ?s2 = "(token_run pre store1)(token td := None)"
  have v: "validateToken (token td) t1 (token_run pre store1) =
             (\<lparr>vr_valid = True, vr_challengeId = Some cid,
               vr_expiresAt = Some (t0 + tokenExpiryMs config), vr_error = None\<rparr>, ?s2)"
    using validateToken_present[where store="token_run pre store1" and t="token td" and td=td and now=t1] l pfx live td by simp
  have a: "token_run post ?s2 (token td) = None"
    using after by (intro token_run_keeps_absent) auto
  have "\<forall>t2. validateToken (token td) t2 (token_run post ?s2) = (notFound, token_run post ?s2)"
    using validateToken_absent[where store="token_run post ?s2" and t="token td"] a pfx by blast
  with v show ?thesis by (intro exI[of _ ?s2]) simp
qed

theorem validateToken_exactly_once_witness:
  "\<exists>store2.
     validateToken ''rcap_AAAAAAAAAAAAAAAAAAAAAAAAAAAAAAAAAAAAAAAAAAA'' 2000
       (token_run [(1500, OpCleanup), (1600, OpCreate exConfig ''ch_other'' None (\<lambda>i. 1))]
          (snd (createToken exConfig ''ch_1'' (Some ''10.0.0.1'') 1000 (\<lambda>i. 0) Map.empty)))
     = (\<lparr>vr_valid = True, vr_challengeId = Some ''ch_1'', vr_expiresAt = Some 61000,
         vr_error = None\<rparr>, store2)
   \<and> validateToken ''rcap_AAAAAAAAAAAAAAAAAAAAAAAAAAAAAAAAAAAAAAAAAAA'' 3000
       (token_run [(2500, OpIsValid ''rcap_AAAAAAAAAAAAAAAAAAAAAAAAAAAAAAAAAAAAAAAAAAA'')] store2)
     = (notFound, token_run [(2500, OpIsValid ''rcap_AAAAAAAAAAAAAAAAAAAAAAAAAAAAAAAAAAAAAAAAAAA'')] store2)"
proof -
  let ?tok = "''rcap_AAAAAAAAAAAAAAAAAAAAAAAAAAAAAAAAAAAAAAAAAAA''"
  let ?pre = "[(1500, OpCleanup), (1600, OpCreate exConfig ''ch_other'' None (\<lambda>i. 1))]"
  let ?post = "[(2500, OpIsValid ?tok)]"
  obtain td store1 where c: "createToken exConfig ''ch_1'' (Some ''10.0.0.1'') 1000 (\<lambda>i. 0) Map.empty = (td, store1)"
    by (cases "createToken exConfig ''ch_1'' (Some ''10.0.0.1'') 1000 (\<lambda>i. 0) Map.empty")
  have g0: "generateTokenString (\<lambda>i. 0) = ?tok" by code_simp
  have g1: "generateTokenString (\<lambda>i. 1) \<noteq> ?tok" by code_simp
  have tk: "token td = ?tok" and ex: "tok_expiresAt td = 61000"
    using c g0 by (auto simp: createToken_def Let_def exConfig_def)
  have h1: "\<forall>op \<in> set ?pre. \<not> issues (token td) op \<and> \<not> redeems (token td) op \<and> fst op \<le> 2000"
    using g1 tk by simp
  have h2: "(2000::int) \<le> tok_expiresAt td" using ex by simp
  have h3: "\<forall>op \<in> set ?post. \<not> issues (token td) op" by simp
  from validateToken_exactly_once[OF c h1 h2 h3] obtain store2 where
    r: "validateToken (token td) 2000 (token_run ?pre store1) =
             (\<lparr>vr_valid = True, vr_challengeId = Some ''ch_1'',
               vr_expiresAt = Some (1000 + tokenExpiryMs exConfig), vr_error = None\<rparr>, store2)"
       "\<forall>t2. validateToken (token td) t2 (token_run ?post store2) = (notFound, token_run ?post store2)"
    by blast
  have s: "snd (createToken exConfig ''ch_1'' (Some ''10.0.0.1'') 1000 (\<lambda>i. 0) Map.empty) = store1"
    using c by simp
  have e: "1000 + tokenExpiryMs exConfig = 61000" by (simp add: exConfig_def)
  show ?thesis
    using r(1) r(2)[rule_format, of 3000] unfolding tk s e by (intro exI[of _ store2]) simp
qed

section \<open>Properties of the /auth/submit handler\<close>

lemma authSubmit_reaches_session:
  assumes "withinBodyLimit contentLength" "admitted st clientIp clk" "sid \<noteq> []"
      and "wellFormedAnswer answer"
      and "getSession (sessions st) sid = Some session" "status session = active"
  shows "authSubmit config env clk ent clientIp contentLength (Body (Str sid) answer) st =
     (let st1 = afterRateLimit st clientIp clk
      in if isBlockExpired session (atExpired clk)
         then
          (let (advanced, session') =
                 advanceToNextBlock session (blockEntropy ent) (atAdvance clk);
               st2 = st1\<lparr>sessions := AList.update sid session' (sessions st1)\<rparr>
           in if \<not> advanced
              then (BlocksExhausted (currentBlock session'), st2, [])
              else (BlockExpired (currentBlock session') (challenge session')
                      (blockTimeoutMs session')
                      (blockStartedAt session' + blockTimeoutMs session'),
                    st2, []))
         else
          (case verifyCoherent env (challenge session) answer of
             Inl _ \<Rightarrow> (InvalidRequestBody, st1, [])
           | Inr (verifyResult, calls) \<Rightarrow>
               if valid verifyResult
               then
                (let session' = markSessionPassed session (atPassed clk);
                     (tokenData, tokenStore') =
                        createToken config (ch_id (challenge session'))
                          (Some clientIp) (atToken clk) (tokenBytes ent)
                          (tokenStore st1)
                 in (Success (token tokenData) (currentBlock session')
                       (coherenceScore verifyResult),
                     st1\<lparr>sessions := AList.update sid session' (sessions st1),
                         tokenStore := tokenStore'\<rparr>,
                     calls))
               else (VerifyFailed (errors verifyResult) (currentBlock session)
                       (getBlockTimeRemaining session (atRemaining clk))
                       (coherenceScore verifyResult),
                     st1, calls)))"
proof -
  have wf: "answer \<noteq> Undefined"
      "\<not> (case answer of Str a \<Rightarrow> length a > MAX_SENTENCE_LENGTH | _ \<Rightarrow> False)"
    using assms(4) by (auto simp: wellFormedAnswer_def split: js_value.splits)
  have lim: "\<not> (case contentLength of
            None \<Rightarrow> False
          | Some h \<Rightarrow> h \<noteq> [] \<and>
              (case parseInt10 h of None \<Rightarrow> False | Some n \<Rightarrow> n > MAX_REQUEST_BODY_SIZE))"
    using assms(1) by (auto simp: withinBodyLimit_def split: option.splits)
  show ?thesis
    using assms(2,3,5,6) wf lim
    unfolding authSubmit_def admitted_def afterRateLimit_def
    by (simp add: split_beta Let_def)
qed



lemma admitted_example: "admitted oneSessionState ''10.0.0.1'' (clockAt t)"
  by (simp add: admitted_def oneSessionState_def clockAt_def checkRateLimit_def getBucket_def
      refillBucket_def RATE_LIMITS_submit_def Let_def)

lemma withinBodyLimit_example: "withinBodyLimit (Some ''62'')"
  unfolding withinBodyLimit_def MAX_REQUEST_BODY_SIZE_def by code_simp



lemma authSubmit_frame:
  assumes ses: "getSession (sessions st) sid = Some session" "status session = active"
      and nex: "\<not> isBlockExpired session (atExpired clk)"
      and fails: "\<forall>r calls. verifyCoherent env (challenge session) answer = Inr (r, calls) \<longrightarrow> \<not> valid r"
  shows "sessions (fst (snd (authSubmit config env clk ent clientIp contentLength (Body (Str sid) answer) st))) = sessions st
       \<and> tokenStore (fst (snd (authSubmit config env clk ent clientIp contentLength (Body (Str sid) answer) st))) = tokenStore st"
  using assms unfolding authSubmit_def
  by (auto simp: split_beta Let_def split: if_splits sum.splits js_value.splits option.splits)

text \<open>
  Claim C8. For a submission to an active session whose block timeout has not elapsed and
  whose verification does not succeed (\<^const>\<open>verifyCoherent\<close> returns no valid result),
  the state the handler leaves has the same session store, so the session has the same
  status, block number, challenge, block start time and other fields, and the same token
  store. When the submission is within the body limit, admitted by the rate limiter and
  well formed, the response carries the verification errors, the block number and the time
  left in the block.
\<close>

theorem authSubmit_failed_verification:
  assumes ses: "getSession (sessions st) sid = Some session" "status session = active"
      and nex: "\<not> isBlockExpired session (atExpired clk)"
      and fails: "\<forall>r calls. verifyCoherent env (challenge session) answer = Inr (r, calls) \<longrightarrow> \<not> valid r"
  shows "sessions (fst (snd (authSubmit config env clk ent clientIp contentLength (Body (Str sid) answer) st))) = sessions st
       \<and> getSession (sessions (fst (snd (authSubmit config env clk ent clientIp contentLength (Body (Str sid) answer) st)))) sid
           = Some session
       \<and> tokenStore (fst (snd (authSubmit config env clk ent clientIp contentLength (Body (Str sid) answer) st))) = tokenStore st
       \<and> (withinBodyLimit contentLength \<and> admitted st clientIp clk \<and> sid \<noteq> [] \<and> wellFormedAnswer answer \<longrightarrow>
            (\<forall>r calls. verifyCoherent env (challenge session) answer = Inr (r, calls) \<longrightarrow>
               fst (authSubmit config env clk ent clientIp contentLength (Body (Str sid) answer) st) =
                 VerifyFailed (errors r) (currentBlock session)
                   (getBlockTimeRemaining session (atRemaining clk)) (coherenceScore r)))"
proof -
  let ?out = "authSubmit config env clk ent clientIp contentLength (Body (Str sid) answer) st"
  have f: "sessions (fst (snd ?out)) = sessions st \<and> tokenStore (fst (snd ?out)) = tokenStore st"
    using ses nex fails by (rule authSubmit_frame)
  have v: "fst ?out = VerifyFailed (errors r) (currentBlock session)
                   (getBlockTimeRemaining session (atRemaining clk)) (coherenceScore r)"
    if a: "withinBodyLimit contentLength \<and> admitted st clientIp clk \<and> sid \<noteq> [] \<and> wellFormedAnswer answer"
    and r: "verifyCoherent env (challenge session) answer = Inr (r, calls)" for r calls
  proof -
    have "\<not> valid r" using fails r by blast
    then show ?thesis
      using authSubmit_reaches_session[of contentLength st clientIp clk sid answer session config env ent]
        a ses nex r
      by (simp add: Let_def)
  qed
  show ?thesis using f ses(1) v by auto
qed

theorem authSubmit_failed_verification_witness:
  "getSession (sessions oneSessionState) ''ses_old'' = Some oldSession
   \<and> status oldSession = active
   \<and> \<not> isBlockExpired oldSession (atExpired (clockAt 5000))
   \<and> verifyCoherent noOracle (challenge oldSession) (Str ''the apple river'') =
       Inr (\<lparr>valid = False,
             errors = [''Missing words: purple, dance, autumn'', ''Word count: expected 15, got 3'',
                       ''Sentence should start with a capital letter''],
             coherenceScore = None\<rparr>, [])
   \<and> fst (authSubmit exConfig noOracle (clockAt 5000) zeroSubmitEntropy ''10.0.0.1'' (Some ''62'')
            (Body (Str ''ses_old'') (Str ''the apple river'')) oneSessionState) =
       VerifyFailed [''Missing words: purple, dance, autumn'', ''Word count: expected 15, got 3'',
                     ''Sentence should start with a capital letter''] 1 4000 None
   \<and> sessions (fst (snd (authSubmit exConfig noOracle (clockAt 5000) zeroSubmitEntropy ''10.0.0.1''
            (Some ''62'') (Body (Str ''ses_old'') (Str ''the apple river'')) oneSessionState)))
       = [(''ses_old'', oldSession)]"
proof -
  let ?r = "\<lparr>valid = False,
             errors = [''Missing words: purple, dance, autumn'', ''Word count: expected 15, got 3'',
                      ''Sentence should start with a capital letter''],
             coherenceScore = None\<rparr>"
  let ?out = "authSubmit exConfig noOracle (clockAt 5000) zeroSubmitEntropy ''10.0.0.1'' (Some ''62'')
            (Body (Str ''ses_old'') (Str ''the apple river'')) oneSessionState"
  have h0: "withinBodyLimit (Some ''62'')" by (rule withinBodyLimit_example)
  have h1: "admitted oneSessionState ''10.0.0.1'' (clockAt 5000)" by (rule admitted_example)
  have h2: "''ses_old'' \<noteq> []" by simp
  have h3: "wellFormedAnswer (Str ''the apple river'')"
    by (simp add: wellFormedAnswer_def MAX_SENTENCE_LENGTH_def)
  have h4: "getSession (sessions oneSessionState) ''ses_old'' = Some oldSession"
    by (simp add: getSession_def oneSessionState_def)
  have h5: "status oldSession = active" by (simp add: oldSession_def)
  have h6: "\<not> isBlockExpired oldSession (atExpired (clockAt 5000))"
    by (simp add: isBlockExpired_def oldSession_def clockAt_def)
  have h7: "verifyCoherent noOracle (challenge oldSession) (Str ''the apple river'') = Inr (?r, [])"
    unfolding noOracle_def oldSession_def by code_simp
  have h8: "\<forall>r calls. verifyCoherent noOracle (challenge oldSession) (Str ''the apple river'') = Inr (r, calls)
              \<longrightarrow> \<not> valid r"
    unfolding h7 by auto
  have v: "currentBlock oldSession = 1" "getBlockTimeRemaining oldSession (atRemaining (clockAt 5000)) = 4000"
    by (simp_all add: oldSession_def getBlockTimeRemaining_def clockAt_def)
  note t = authSubmit_failed_verification[OF h4 h5 h6 h8, of exConfig zeroSubmitEntropy "''10.0.0.1''" "Some ''62''"]
  from t have s: "sessions (fst (snd ?out)) = sessions oneSessionState" by blast
  from t h0 h1 h2 h3 h7 have "fst ?out = VerifyFailed (errors ?r) (currentBlock oldSession)
                   (getBlockTimeRemaining oldSession (atRemaining (clockAt 5000))) (coherenceScore ?r)"
    by blast
  then have f: "fst ?out = VerifyFailed [''Missing words: purple, dance, autumn'', ''Word count: expected 15, got 3'',
                     ''Sentence should start with a capital letter''] 1 4000 None"
    unfolding v by simp
  have s': "sessions (fst (snd ?out)) = [(''ses_old'', oldSession)]"
    using s by (simp add: oneSessionState_def)
  show ?thesis using h4 h5 h6 h7 f s' by blast
qed

end
